theory Spec2Isabelle
  imports Main "HOL-Library.AList" "HOL-Library.Multiset"
begin

section \<open>Affiliation service (services/affiliation.py)\<close>

subsection \<open>Data model\<close>

text \<open>
  The registry payloads are JSON objects (Python dicts).  A dict is modelled as a record
  with one optional field per key the service reads (\<open>None\<close>: the key is absent) and a
  list \<open>extra\<close> of every other key with its value, sorted by key, so that dict equality
  is equality of the record.  A key that is present holds a string; Python truthiness of
  a string is non-emptiness.
\<close>

record name_request =
  nrNum :: "string option"
  stateCd :: "string option"
  request_action_cd :: "string option"
  nr_extra :: "(string \<times> string) list"

record business =
  "identifier" :: "string option"
  nrNumber :: "string option"
  draftType :: "string option"
  legalType :: "string option"
  nameRequest :: "name_request option"
  extra :: "(string \<times> string) list"

text \<open>AffiliationBase: a timestamp is a number of microseconds counted from \<open>datetime.min\<close>.\<close>

record affiliation_base =
  ab_identifier :: string
  created :: nat

definition datetime_min :: nat where
  "datetime_min = 0"

definition truthy :: "string option \<Rightarrow> bool" where
  "truthy v = (case v of None \<Rightarrow> False | Some s \<Rightarrow> s \<noteq> [])"

text \<open>The string held by a key that is present.\<close>

definition py_str :: "string option \<Rightarrow> string" where
  "py_str v = (case v of None \<Rightarrow> [] | Some s \<Rightarrow> s)"

subsection \<open>Ordering of the combined result\<close>

text \<open>
  \<open>sorted(xs, key=k, reverse=True)\<close> and \<open>xs.sort(key=k, reverse=True)\<close>: CPython reverses
  the list, sorts it stably in ascending order and reverses it again, which keeps the
  original order among elements with equal keys.
\<close>

definition py_sort_reverse :: "('a \<Rightarrow> 'k::linorder) \<Rightarrow> 'a list \<Rightarrow> 'a list" where
  "py_sort_reverse k xs = rev (sort_key k (rev xs))"

text \<open>The dict comprehension \<open>{a.identifier: a.created for a in ...}\<close>: later entries overwrite.\<close>

definition ordered_dict :: "affiliation_base list \<Rightarrow> (string \<rightharpoonup> nat)" where
  "ordered_dict affiliation_bases =
     fold (\<lambda>a m. m(ab_identifier a \<mapsto> created a))
       (py_sort_reverse created affiliation_bases) Map.empty"

text \<open>\<open>item.get("identifier", item.get("nameRequest", {}).get("nrNum", ""))\<close>\<close>

definition item_identifier :: "business \<Rightarrow> string" where
  "item_identifier item =
     (case identifier item of
        Some i \<Rightarrow> i
      | None \<Rightarrow> (case nameRequest item of
                   None \<Rightarrow> []
                 | Some nr \<Rightarrow> (case nrNum nr of None \<Rightarrow> [] | Some n \<Rightarrow> n)))"

definition sort_key_item :: "(string \<rightharpoonup> nat) \<Rightarrow> business \<Rightarrow> nat" where
  "sort_key_item ordered item =
     (case ordered (item_identifier item) of None \<Rightarrow> datetime_min | Some t \<Rightarrow> t)"

definition sort_affiliations_by_created :: "business list \<Rightarrow> affiliation_base list \<Rightarrow> business list" where
  "sort_affiliations_by_created combined affiliation_bases =
     py_sort_reverse (sort_key_item (ordered_dict affiliation_bases)) combined"

text \<open>
  The creation timestamp of the base whose identifier matches a record, as the
  specification words it (\<open>datetime.min\<close> when no base matches).
\<close>

definition base_created :: "affiliation_base list \<Rightarrow> business \<Rightarrow> nat" where
  "base_created affiliation_bases item =
     (case find (\<lambda>a. ab_identifier a = item_identifier item) affiliation_bases of
        None \<Rightarrow> datetime_min
      | Some a \<Rightarrow> created a)"

subsection \<open>Grouping the registry responses\<close>

text \<open>
  Modelled from the spec: the enumerations \<open>CorpType\<close>, \<open>NRStatus\<close> and \<open>NRActionCodes\<close>
  of \<open>auth_api.utils.enums\<close> are outside the two service modules modelled here.  The
  specification gives the state of a consumed name request as "CONSUMED"; the other
  members are named after their use in the service.
\<close>

definition CorpType_NR :: string where
  "CorpType_NR = ''NR''"

definition CorpType_ATMP :: string where
  "CorpType_ATMP = ''ATMP''"

definition NRStatus_CONSUMED :: string where
  "NRStatus_CONSUMED = ''CONSUMED''"

definition NRActionCodes_AMALGAMATE :: string where
  "NRActionCodes_AMALGAMATE = ''AML''"

datatype error =
    KeyError string
  | ValueError
  | AttributeError
  | TypeError
  | Forbidden
  | BusinessException string

text \<open>
  A response of a registry is a list of name requests or a dict with the optional keys
  \<open>requests\<close>, \<open>hasMore\<close>, \<open>businessEntities\<close> and \<open>draftEntities\<close>.
\<close>

record raw_source_record =
  requests :: "name_request list option"
  hasMore :: "bool option"
  businessEntities :: "business list option"
  draftEntities :: "business list option"

datatype response = ListResponse "name_request list" | DictResponse raw_source_record

text \<open>\<open>_extract_name_requests\<close> returns the pair of \<open>hasMore\<close> and \<open>requests\<close>.\<close>

definition extract_name_requests :: "response \<Rightarrow> bool \<times> name_request list" where
  "extract_name_requests data =
     (case data of
        ListResponse l \<Rightarrow> (False, l)
      | DictResponse d \<Rightarrow>
          (case requests d of
             None \<Rightarrow> (False, [])
           | Some nr_list \<Rightarrow> (case hasMore d of None \<Rightarrow> False | Some h \<Rightarrow> h, nr_list)))"

text \<open>The value stored for a name request: \<open>{"legalType": "NR", "nameRequest": name_request}\<close>.\<close>

definition nr_record :: "name_request \<Rightarrow> business" where
  "nr_record name_request =
     \<lparr> identifier = None, nrNumber = None, draftType = None,
       legalType = Some CorpType_NR, nameRequest = Some name_request, extra = [] \<rparr>"

text \<open>
  The dict \<open>name_requests\<close> keeps insertion order: it is an association list with one
  entry per key; assigning to a key that exists replaces its value in place
  (\<open>AList.update\<close>), \<open>del\<close> is \<open>AList.delete\<close>.
\<close>

type_synonym name_requests = "(string \<times> business) list"

definition add_name_request :: "name_request \<Rightarrow> name_requests \<Rightarrow> name_requests" where
  "add_name_request name_request name_requests =
     (case nrNum name_request of
        None \<Rightarrow> name_requests
      | Some n \<Rightarrow> AList.update n (nr_record name_request) name_requests)"

definition group_step ::
  "response \<Rightarrow> name_requests \<times> business list \<times> business list
     \<Rightarrow> name_requests \<times> business list \<times> business list" where
  "group_step data acc =
     (case acc of (name_requests, businesses, drafts) \<Rightarrow>
        (fold add_name_request (snd (extract_name_requests data)) name_requests,
         (case data of
            DictResponse d \<Rightarrow>
              (case businessEntities d of None \<Rightarrow> businesses | Some l \<Rightarrow> businesses @ l)
          | ListResponse _ \<Rightarrow> businesses),
         (case data of
            DictResponse d \<Rightarrow>
              (case draftEntities d of None \<Rightarrow> drafts | Some l \<Rightarrow> drafts @ l)
          | ListResponse _ \<Rightarrow> drafts)))"

definition group_details :: "response list \<Rightarrow> name_requests \<times> business list \<times> business list" where
  "group_details details = fold group_step details ([], [], [])"

subsection \<open>Linking drafts and businesses to their name requests\<close>

text \<open>
  \<open>_combine_nrs\<close> iterates over the snapshot \<open>drafts + businesses\<close> and, while doing so,
  mutates the records in place and removes elements from the list \<open>drafts\<close>.  The records
  are therefore kept in a store: \<open>st_objects\<close> holds the record objects of the snapshot,
  addressed by their position, and \<open>st_drafts\<close> is the list \<open>drafts\<close> of references to
  them.  Every element of the two input lists is an object of its own, as the elements of
  parsed responses are.
\<close>

record link_state =
  st_objects :: "business list"
  st_drafts :: "nat list"
  st_name_requests :: name_requests

text \<open>
  \<open>list.remove(x)\<close> and \<open>x in list\<close> compare by value: the first reference whose record
  equals \<open>x\<close> is removed, and \<open>ValueError\<close> is raised (here \<open>None\<close>) when there is none.
\<close>

fun remove_first :: "(nat \<Rightarrow> bool) \<Rightarrow> nat list \<Rightarrow> nat list option" where
  "remove_first P [] = None"
| "remove_first P (t # ts) =
     (if P t then Some ts
      else (case remove_first P ts of None \<Rightarrow> None | Some ts' \<Rightarrow> Some (t # ts')))"

definition update_draft_type_for_amalgamation_nr :: "business \<Rightarrow> error + business" where
  "update_draft_type_for_amalgamation_nr b =
     (if truthy (draftType b) then
        (case nameRequest b of
           None \<Rightarrow> Inl (KeyError ''nameRequest'')
         | Some nr \<Rightarrow>
             (case request_action_cd nr of
                None \<Rightarrow> Inl (KeyError ''request_action_cd'')
              | Some a \<Rightarrow>
                  Inr (if a = NRActionCodes_AMALGAMATE
                       then b\<lparr>draftType := Some CorpType_ATMP\<rparr> else b)))
      else Inr b)"

text \<open>
  \<open>_process_nr_for_business\<close> for the object at address \<open>a\<close>; the result is the returned
  flag and the state after the call.
\<close>

definition process_nr_for_business :: "nat \<Rightarrow> link_state \<Rightarrow> error + (bool \<times> link_state)" where
  "process_nr_for_business a s =
     (case nrNumber (st_objects s ! a) of
        None \<Rightarrow> Inl (KeyError ''nrNumber'')
      | Some nr_num \<Rightarrow>
          (case map_of (st_name_requests s) nr_num of
             None \<Rightarrow> Inr (False, s)
           | Some w \<Rightarrow>
               (case nameRequest w of
                  None \<Rightarrow> Inl (KeyError ''nameRequest'')
                | Some nr \<Rightarrow>
                    (case update_draft_type_for_amalgamation_nr
                            ((st_objects s ! a)\<lparr>nameRequest := Some nr\<rparr>) of
                       Inl e \<Rightarrow> Inl e
                     | Inr b \<Rightarrow>
                         (case stateCd nr of
                            None \<Rightarrow> Inl (KeyError ''stateCd'')
                          | Some state \<Rightarrow>
                              (let objs = (st_objects s)[a := b] in
                               if state = NRStatus_CONSUMED then
                                 (case remove_first (\<lambda>t. objs ! t = b) (st_drafts s) of
                                    None \<Rightarrow> Inl ValueError
                                  | Some ds \<Rightarrow>
                                      Inr (True,
                                        \<lparr> st_objects = objs, st_drafts = ds,
                                          st_name_requests =
                                            AList.delete nr_num (st_name_requests s) \<rparr>))
                               else
                                 Inr (True,
                                   \<lparr> st_objects = objs, st_drafts = st_drafts s,
                                     st_name_requests =
                                       AList.delete nr_num (st_name_requests s) \<rparr>)))))))"

text \<open>The body of the loop of \<open>_combine_nrs\<close> for the object at address \<open>a\<close>.\<close>

definition combine_step :: "bool \<Rightarrow> nat \<Rightarrow> link_state \<Rightarrow> error + link_state" where
  "combine_step remove_stale_drafts a s =
     (if truthy (nrNumber (st_objects s ! a)) then
        (case process_nr_for_business a s of
           Inl e \<Rightarrow> Inl e
         | Inr (processed, s') \<Rightarrow>
             (if \<not> processed \<and> remove_stale_drafts
                 \<and> list_ex (\<lambda>t. st_objects s' ! t = st_objects s' ! a) (st_drafts s')
              then
                (case remove_first (\<lambda>t. st_objects s' ! t = st_objects s' ! a) (st_drafts s') of
                   None \<Rightarrow> Inl ValueError
                 | Some ds \<Rightarrow> Inr (s'\<lparr>st_drafts := ds\<rparr>))
              else Inr s'))
      else Inr s)"

fun combine_loop :: "bool \<Rightarrow> nat list \<Rightarrow> link_state \<Rightarrow> error + link_state" where
  "combine_loop remove_stale_drafts [] s = Inr s"
| "combine_loop remove_stale_drafts (a # as) s =
     (case combine_step remove_stale_drafts a s of
        Inl e \<Rightarrow> Inl e
      | Inr s' \<Rightarrow> combine_loop remove_stale_drafts as s')"

text \<open>The state in which the loop of \<open>_combine_nrs\<close> ends.\<close>

definition combine_nrs_state ::
  "name_requests \<Rightarrow> business list \<Rightarrow> business list \<Rightarrow> bool \<Rightarrow> error + link_state" where
  "combine_nrs_state name_requests businesses drafts remove_stale_drafts =
     combine_loop remove_stale_drafts [0 ..< length (drafts @ businesses)]
       \<lparr> st_objects = drafts @ businesses, st_drafts = [0 ..< length drafts],
         st_name_requests = name_requests \<rparr>"

text \<open>The three parts of the returned list: name requests, drafts, businesses.\<close>

definition result_name_requests :: "link_state \<Rightarrow> business list" where
  "result_name_requests s = map snd (st_name_requests s)"

definition result_drafts :: "link_state \<Rightarrow> business list" where
  "result_drafts s = map (\<lambda>t. st_objects s ! t) (st_drafts s)"

definition result_businesses :: "nat \<Rightarrow> link_state \<Rightarrow> business list" where
  "result_businesses n s = drop n (st_objects s)"

definition combine_nrs ::
  "name_requests \<Rightarrow> business list \<Rightarrow> business list \<Rightarrow> bool \<Rightarrow> error + business list" where
  "combine_nrs name_requests businesses drafts remove_stale_drafts =
     (case combine_nrs_state name_requests businesses drafts remove_stale_drafts of
        Inl e \<Rightarrow> Inl e
      | Inr s \<Rightarrow>
          Inr (result_name_requests s @ result_drafts s @ result_businesses (length drafts) s))"

definition combine_affiliation_details :: "response list \<Rightarrow> bool \<Rightarrow> error + business list" where
  "combine_affiliation_details details remove_stale_drafts =
     (case group_details details of
        (name_requests, businesses, drafts) \<Rightarrow>
          combine_nrs name_requests businesses drafts remove_stale_drafts)"

text \<open>
  A record carries a reference that does not resolve: its \<open>nrNumber\<close> is present and
  non-empty, and is not a key of the mapping of name requests.
\<close>

definition reference_unresolved :: "name_requests \<Rightarrow> business \<Rightarrow> bool" where
  "reference_unresolved name_requests b =
     (truthy (nrNumber b) \<and> py_str (nrNumber b) \<notin> fst ` set name_requests)"

text \<open>
  The mapping as the grouping builds it: one entry per number, and the record of an entry
  is looked up under that number.
\<close>

definition keyed_by_number :: "name_requests \<Rightarrow> bool" where
  "keyed_by_number nrs = (distinct (map fst nrs) \<and> (\<forall>(k, w)\<in>set nrs. item_identifier w = k))"

text \<open>A name request payload that holds the two keys the linking reads.\<close>

definition payload_complete :: "business \<Rightarrow> bool" where
  "payload_complete w =
     (case nameRequest w of
        None \<Rightarrow> False
      | Some nr \<Rightarrow> stateCd nr \<noteq> None \<and> request_action_cd nr \<noteq> None)"

subsection \<open>Authorization of an affiliation\<close>

text \<open>
  The caller as the service sees it: the roles of the token, whether it is a staff token,
  and the user record found for the token, if any.
\<close>

record user_context =
  uc_user_name :: string
  uc_roles :: "string list"
  uc_is_staff :: bool
  uc_current_user :: "nat option"
  uc_org_membership :: "nat \<rightharpoonup> string"

text \<open>
  The answers of the collaborators the services call: the tables behind the query layer,
  the identity provider, the registry and the passcode hash.
\<close>

record member =
  m_user_id :: nat
  m_org_id :: nat
  membership_type_code :: string
  status :: int

record org =
  o_id :: nat
  o_type_code :: string
  o_members :: "member list"

record officer =
  partyType :: "string option"
  organizationName :: "string option"
  lastName :: "string option"
  firstName :: "string option"
  middleInitial :: "string option"

record env =
  e_memberships :: "member list"
  e_orgs :: "org list"
  e_find_orgs_for_user :: "nat \<Rightarrow> nat list"
  e_user_groups :: "string \<Rightarrow> string list"
  e_contact_email :: "nat \<Rightarrow> string option"
  e_check_if_sbc_staff :: "nat \<Rightarrow> bool"
  e_parties :: "string \<Rightarrow> officer list option"
  e_verify_hash :: "string \<Rightarrow> string \<Rightarrow> bool"
  e_str_split :: "string \<Rightarrow> string list"
  e_str_upper :: "string \<Rightarrow> string"

text \<open>The entity model, as far as \<open>is_authorized\<close> reads it.\<close>

record entity =
  corp_type :: string
  business_identifier :: string
  pass_code :: "string option"

text \<open>
  Modelled from the spec: the role \<open>Role.SKIP_AFFILIATION_AUTH\<close> of \<open>auth_api.utils.roles\<close>
  is outside the two service modules modelled here; it is the "explicit bypass role" of the
  specification.
\<close>

definition Role_SKIP_AFFILIATION_AUTH :: string where
  "Role_SKIP_AFFILIATION_AUTH = ''skip_affiliation_auth''"

definition has_role_to_skip_auth :: "env \<Rightarrow> user_context \<Rightarrow> bool" where
  "has_role_to_skip_auth ev ctx =
     (Role_SKIP_AFFILIATION_AUTH \<in> set (uc_roles ctx)
      \<or> uc_is_staff ctx
      \<or> (case uc_current_user ctx of None \<Rightarrow> False | Some u \<Rightarrow> e_check_if_sbc_staff ev u))"

text \<open>
  Modelled from the spec: \<open>validate_passcode\<close> of \<open>auth_api.utils.passcode\<close> is outside
  the two service modules modelled here.  The specification describes it as
  \<open>validateStoredPasscode(supplied, stored) -> bool\<close>, which must treat an empty stored value
  as non-matching when the supplied value is non-empty; the comparison of the supplied
  passcode with the stored hash is \<open>e_verify_hash\<close>.
\<close>

definition validate_passcode :: "env \<Rightarrow> string \<Rightarrow> string option \<Rightarrow> bool" where
  "validate_passcode ev supplied stored =
     (case stored of
        None \<Rightarrow> False
      | Some h \<Rightarrow> h \<noteq> [] \<and> e_verify_hash ev supplied h)"

text \<open>
  \<open>s.split()\<close> and \<open>s.upper()\<close> are methods of the interpreter and follow its Unicode
  tables: white space is the blank, the controls U+0009 to U+000D and U+001C to U+001F,
  U+0085, U+00A0 and the Unicode separators, and raising the case of a text may change its
  length.  A text is a list of 8-bit characters here, so the two methods are taken from the
  environment (\<open>e_str_split\<close>, \<open>e_str_upper\<close>).  \<open>" ".join(ws)\<close> puts one blank between
  the words.
\<close>

fun py_join_space :: "string list \<Rightarrow> string" where
  "py_join_space [] = []"
| "py_join_space [w] = w"
| "py_join_space (w # ws) = w @ '' '' @ py_join_space ws"

text \<open>The name of a party as \<open>_validate_firms_party\<close> composes it.\<close>

definition party_name_of :: "officer \<Rightarrow> error + string" where
  "party_name_of off =
     (if partyType off = Some ''organization'' then
        (case organizationName off of None \<Rightarrow> Inl AttributeError | Some n \<Rightarrow> Inr n)
      else
        (case lastName off of
           None \<Rightarrow> Inl TypeError
         | Some l \<Rightarrow>
             (case firstName off of
                None \<Rightarrow> Inl TypeError
              | Some f \<Rightarrow>
                  Inr (if truthy (middleInitial off)
                       then l @ '', '' @ f @ '' '' @ py_str (middleInitial off)
                       else l @ '', '' @ f))))"

fun match_parties :: "env \<Rightarrow> officer list \<Rightarrow> string \<Rightarrow> error + bool" where
  "match_parties ev [] party_name_str = Inr False"
| "match_parties ev (off # rest) party_name_str =
     (case party_name_of off of
        Inl e \<Rightarrow> Inl e
      | Inr party_name \<Rightarrow>
          (if e_str_upper ev (py_join_space (e_str_split ev party_name_str))
                = e_str_upper ev (py_join_space (e_str_split ev party_name))
           then Inr True
           else match_parties ev rest (py_join_space (e_str_split ev party_name_str))))"

definition validate_firms_party :: "env \<Rightarrow> string \<Rightarrow> string \<Rightarrow> error + bool" where
  "validate_firms_party ev business_id party_name_str =
     (case e_parties ev business_id of
        None \<Rightarrow> Inl (BusinessException ''DATA_NOT_FOUND'')
      | Some parties \<Rightarrow> match_parties ev parties party_name_str)"

definition is_authorized :: "env \<Rightarrow> user_context \<Rightarrow> entity \<Rightarrow> string option \<Rightarrow> error + bool" where
  "is_authorized ev ctx ent passcode =
     (if has_role_to_skip_auth ev ctx then Inr True
      else if corp_type ent \<in> set [''SP'', ''GP''] then
        (if \<not> truthy passcode then Inr False
         else validate_firms_party ev (business_identifier ent) (py_str passcode))
      else if truthy passcode then Inr (validate_passcode ev (py_str passcode) (pass_code ent))
      else if truthy (pass_code ent) then Inr False
      else Inr True)"

section \<open>Membership service (services/membership.py)\<close>

subsection \<open>Constants\<close>

text \<open>
  Modelled from the spec: the role names of \<open>auth_api.utils.roles\<close>, the enumerations
  \<open>Status\<close>, \<open>LoginSource\<close>, \<open>OrgType\<close> and \<open>ActivityAction\<close> of \<open>auth_api.utils.enums\<close>, the
  group names of \<open>auth_api.utils.constants\<close> and the error codes of
  \<open>auth_api.exceptions.errors\<close> are outside the two service modules modelled here.  The
  specification names the roles ADMIN (owner) and COORDINATOR, the caller class STAFF and
  the states ACTIVE, INACTIVE, REJECTED and PENDING_APPROVAL; each constant is its own
  name, and the states are numbered in the order of the enumeration.
\<close>

definition ADMIN :: string where
  "ADMIN = ''ADMIN''"

definition COORDINATOR :: string where
  "COORDINATOR = ''COORDINATOR''"

definition STAFF :: string where
  "STAFF = ''STAFF''"

definition Status_ACTIVE :: int where
  "Status_ACTIVE = 1"

definition Status_INACTIVE :: int where
  "Status_INACTIVE = 2"

definition Status_REJECTED :: int where
  "Status_REJECTED = 3"

definition Status_PENDING_APPROVAL :: int where
  "Status_PENDING_APPROVAL = 4"

definition LoginSource_BCEID :: string where
  "LoginSource_BCEID = ''BCEID''"

definition LoginSource_BCROS :: string where
  "LoginSource_BCROS = ''BCROS''"

definition CHANGE_ROLE_FAILED_ONLY_OWNER :: string where
  "CHANGE_ROLE_FAILED_ONLY_OWNER = ''CHANGE_ROLE_FAILED_ONLY_OWNER''"

definition BCEID_USERS_CANT_BE_OWNERS :: string where
  "BCEID_USERS_CANT_BE_OWNERS = ''BCEID_USERS_CANT_BE_OWNERS''"

definition MAX_NUMBER_OF_STAFF_ORGS_LIMIT :: string where
  "MAX_NUMBER_OF_STAFF_ORGS_LIMIT = ''MAX_NUMBER_OF_STAFF_ORGS_LIMIT''"

text \<open>\<open>org_type_to_group_mapping\<close>: the staff-tier org types and their groups.\<close>

definition org_type_to_group_mapping :: "(string \<times> string) list" where
  "org_type_to_group_mapping =
     [(''MAXIMUS_STAFF'', ''GROUP_MAXIMUS_STAFF''),
      (''CC_STAFF'', ''GROUP_CONTACT_CENTRE_STAFF''),
      (''SBC_STAFF'', ''GROUP_SBC_STAFF'')]"

subsection \<open>Values and the membership model\<close>

record membership_type =
  code :: string

record membership_status_code =
  status_id :: int

record user =
  u_id :: nat
  u_username :: string
  u_login_source :: string
  u_firstname :: string
  u_lastname :: string
  u_keycloak_guid :: string

text \<open>
  The values that the attributes of a membership model and the entries of
  \<open>updated_fields\<close> hold.  \<open>update_membership\<close> assigns attributes by name (\<open>setattr\<close>), so the
  model instance is the map from attribute names to their values.
\<close>

datatype pyval =
    PNone
  | PStr string
  | PInt int
  | PMembershipType membership_type
  | PMembershipStatus membership_status_code
  | PUser user
  | POrg org

type_synonym membership_model = "(string \<times> pyval) list"

type_synonym updated_fields = "(string \<times> pyval) list"

definition py_truthy :: "pyval \<Rightarrow> bool" where
  "py_truthy v =
     (case v of
        PNone \<Rightarrow> False
      | PStr s \<Rightarrow> s \<noteq> []
      | PInt i \<Rightarrow> i \<noteq> 0
      | _ \<Rightarrow> True)"

text \<open>\<open>v.id\<close>: the models carry an \<open>id\<close>, a membership type is keyed by its code.\<close>

definition py_id :: "pyval \<Rightarrow> error + int" where
  "py_id v =
     (case v of
        PMembershipStatus s \<Rightarrow> Inr (status_id s)
      | PUser u \<Rightarrow> Inr (int (u_id u))
      | POrg g \<Rightarrow> Inr (int (o_id g))
      | _ \<Rightarrow> Inl AttributeError)"

text \<open>\<open>getattr(v, "code", None)\<close>\<close>

definition py_getattr_code :: "pyval \<Rightarrow> string option" where
  "py_getattr_code v = (case v of PMembershipType t \<Rightarrow> Some (code t) | _ \<Rightarrow> None)"

text \<open>\<open>v == s\<close> for a string \<open>s\<close>: a model object is equal to itself only.\<close>

definition py_eq_str :: "pyval \<Rightarrow> string \<Rightarrow> bool" where
  "py_eq_str v s = (case v of PStr x \<Rightarrow> x = s | _ \<Rightarrow> False)"

text \<open>\<open>d.get(key)\<close> on a dict\<close>

definition dict_get :: "(string \<times> pyval) list \<Rightarrow> string \<Rightarrow> pyval" where
  "dict_get d k = (case map_of d k of None \<Rightarrow> PNone | Some v \<Rightarrow> v)"

text \<open>Reading an attribute of the model instance, and the attribute chains the service reads.\<close>

definition model_attr :: "membership_model \<Rightarrow> string \<Rightarrow> error + pyval" where
  "model_attr m k = (case map_of m k of None \<Rightarrow> Inl AttributeError | Some v \<Rightarrow> Inr v)"

definition model_user :: "membership_model \<Rightarrow> error + user" where
  "model_user m = (case map_of m ''user'' of Some (PUser u) \<Rightarrow> Inr u | _ \<Rightarrow> Inl AttributeError)"

definition model_org :: "membership_model \<Rightarrow> error + org" where
  "model_org m = (case map_of m ''org'' of Some (POrg g) \<Rightarrow> Inr g | _ \<Rightarrow> Inl AttributeError)"

definition model_membership_type_code :: "membership_model \<Rightarrow> error + string" where
  "model_membership_type_code m =
     (case map_of m ''membership_type'' of
        Some (PMembershipType t) \<Rightarrow> Inr (code t)
      | _ \<Rightarrow> Inl AttributeError)"

definition model_membership_status_id :: "membership_model \<Rightarrow> error + int" where
  "model_membership_status_id m =
     (case map_of m ''membership_status'' of None \<Rightarrow> Inl AttributeError | Some v \<Rightarrow> py_id v)"

text \<open>\<open>setattr(self._model, key, value)\<close>\<close>

definition setattr_model :: "string \<Rightarrow> pyval \<Rightarrow> membership_model \<Rightarrow> membership_model" where
  "setattr_model key v m = AList.update key v m"

subsection \<open>Collaborators\<close>

text \<open>
  Modelled from the spec: \<open>check_auth\<close> of \<open>services/authorization.py\<close> is outside the
  two service modules modelled here.  The specification words its use as "the caller must
  be COORDINATOR/ADMIN/STAFF on the target org": the call passes when the role the caller
  holds on the org is one of the listed roles, a staff caller holding the role STAFF; the
  caller of a call that does not pass is refused (\<open>Forbidden\<close>).
\<close>

definition check_auth :: "user_context \<Rightarrow> pyval \<Rightarrow> string list \<Rightarrow> bool" where
  "check_auth ctx org_id one_of_roles =
     (if uc_is_staff ctx then STAFF \<in> set one_of_roles
      else (case org_id of
              PInt i \<Rightarrow>
                (if i < 0 then False
                 else (case uc_org_membership ctx (nat i) of
                         None \<Rightarrow> False
                       | Some r \<Rightarrow> r \<in> set one_of_roles))
            | _ \<Rightarrow> False))"

text \<open>
  Modelled from the spec: the queries of the membership and org models are outside the
  two service modules modelled here; they are read off their names over the tables
  \<open>e_memberships\<close> and \<open>e_orgs\<close>.
\<close>

definition find_memberships_by_user_id_and_status :: "env \<Rightarrow> nat \<Rightarrow> int \<Rightarrow> member list" where
  "find_memberships_by_user_id_and_status ev user_id st =
     filter (\<lambda>x. m_user_id x = user_id \<and> status x = st) (e_memberships ev)"

definition find_by_org_ids_and_org_types :: "env \<Rightarrow> nat list \<Rightarrow> string list \<Rightarrow> org list" where
  "find_by_org_ids_and_org_types ev org_ids org_types =
     filter (\<lambda>g. o_id g \<in> set org_ids \<and> o_type_code g \<in> set org_types) (e_orgs ev)"

text \<open>What the service asks of its collaborators, in the order of the calls.\<close>

datatype effect =
    ModelSave
  | PublishActivity pyval string pyval
  | PublishTeamMemberEvent pyval pyval
  | JoinAccountHoldersGroup string
  | RemoveFromAccountHoldersGroup string
  | AddUserToGroup string string
  | RemoveUserFromGroup string string
  | UpdateUsersProductsKeycloakGroups nat
  | PublishToMailer string "string option"

subsection \<open>Guards and operations\<close>

definition get_owner_count :: "org \<Rightarrow> nat" where
  "get_owner_count g = length (filter (\<lambda>x. membership_type_code x = ADMIN) (o_members g))"

definition check_if_add_user_has_active_staff_org :: "env \<Rightarrow> pyval \<Rightarrow> nat \<Rightarrow> error + unit" where
  "check_if_add_user_has_active_staff_org ev updated_membership_status user_id =
     (let staff_org_types = map fst org_type_to_group_mapping;
          memberships = find_memberships_by_user_id_and_status ev user_id Status_ACTIVE;
          staff_orgs = find_by_org_ids_and_org_types ev (map m_org_id memberships) staff_org_types
      in if py_truthy updated_membership_status then
           (case py_id updated_membership_status of
              Inl e \<Rightarrow> Inl e
            | Inr i \<Rightarrow>
                (if i = Status_ACTIVE \<and> length staff_orgs > 0
                 then Inl (BusinessException MAX_NUMBER_OF_STAFF_ORGS_LIMIT)
                 else Inr ()))
         else Inr ())"

text \<open>
  The staff-uniqueness rule as the specification words it: the change would make the user
  concurrently ACTIVE in more than one staff-tier org.
\<close>

definition staff_tier :: "env \<Rightarrow> nat \<Rightarrow> bool" where
  "staff_tier ev org_id =
     list_ex (\<lambda>g. o_id g = org_id \<and> o_type_code g \<in> set (map fst org_type_to_group_mapping))
       (e_orgs ev)"

definition active_staff_org_ids :: "env \<Rightarrow> nat \<Rightarrow> nat list" where
  "active_staff_org_ids ev user_id =
     remdups (filter (staff_tier ev)
       (map m_org_id (filter (\<lambda>x. m_user_id x = user_id \<and> status x = Status_ACTIVE)
          (e_memberships ev))))"

definition concurrently_active_in_staff_orgs :: "env \<Rightarrow> nat \<Rightarrow> nat \<Rightarrow> int \<Rightarrow> nat" where
  "concurrently_active_in_staff_orgs ev user_id target_org new_status =
     length (remdups
       ((if new_status = Status_ACTIVE \<and> staff_tier ev target_org then [target_org] else [])
        @ filter (\<lambda>g. g \<noteq> target_org) (active_staff_org_ids ev user_id)))"

text \<open>
  \<open>update_membership\<close>, lines 224 to 258: the checks that precede the assignment of the
  fields.  The result is the flag \<open>admin_getting_removed\<close>.
\<close>

definition update_membership_guards ::
  "env \<Rightarrow> user_context \<Rightarrow> updated_fields \<Rightarrow> membership_model \<Rightarrow> error + bool" where
  "update_membership_guards ev ctx updated_fields m =
     (case model_attr m ''org_id'' of
        Inl e \<Rightarrow> Inl e
      | Inr org_id \<Rightarrow>
     if \<not> check_auth ctx org_id [COORDINATOR, ADMIN, STAFF] then Inl Forbidden
     else
     (let updated_membership_status = dict_get updated_fields ''membership_status'' in
      case model_user m of
        Inl e \<Rightarrow> Inl e
      | Inr usr \<Rightarrow>
     (case check_if_add_user_has_active_staff_org ev updated_membership_status (u_id usr) of
        Inl e \<Rightarrow> Inl e
      | Inr _ \<Rightarrow>
     if u_login_source usr = LoginSource_BCEID
        \<and> py_getattr_code (dict_get updated_fields ''membership_type'') = Some ADMIN
     then Inl (BusinessException BCEID_USERS_CANT_BE_OWNERS)
     else
     (case model_membership_type_code m of
        Inl e \<Rightarrow> Inl e
      | Inr type_code \<Rightarrow>
     if type_code = COORDINATOR
        \<and> py_eq_str (dict_get updated_fields ''membership_type'') ADMIN
        \<and> \<not> check_auth ctx org_id [ADMIN, STAFF]
     then Inl Forbidden
     else
     (case (if py_truthy updated_membership_status
            then py_id updated_membership_status else Inr 0) of
        Inl e \<Rightarrow> Inl e
      | Inr sid \<Rightarrow>
     (let admin_getting_removed =
            (py_truthy updated_membership_status \<and> sid = Status_INACTIVE \<and> type_code = ADMIN)
      in
      case (if admin_getting_removed
            then (case model_org m of
                    Inl e \<Rightarrow> Inl e
                  | Inr g \<Rightarrow>
                      (if get_owner_count g = 1
                       then Inl (BusinessException CHANGE_ROLE_FAILED_ONLY_OWNER)
                       else Inr ()))
            else Inr ()) of
        Inl e \<Rightarrow> Inl e
      | Inr _ \<Rightarrow>
     (if type_code = ADMIN
         \<and> \<not> py_eq_str (dict_get updated_fields ''membership_type'') ADMIN
      then (case model_org m of
              Inl e \<Rightarrow> Inl e
            | Inr g \<Rightarrow>
                (if get_owner_count g = 1
                 then Inl (BusinessException CHANGE_ROLE_FAILED_ONLY_OWNER)
                 else Inr admin_getting_removed))
      else Inr admin_getting_removed)))))))"

text \<open>Lines 260 to 262: only the entries whose value is not \<open>None\<close> are assigned.\<close>

fun apply_updated_fields :: "updated_fields \<Rightarrow> membership_model \<Rightarrow> membership_model" where
  "apply_updated_fields [] m = m"
| "apply_updated_fields ((key, v) # rest) m =
     apply_updated_fields rest (if v \<noteq> PNone then setattr_model key v m else m)"

text \<open>\<open>add_or_remove_group_for_staff\<close>\<close>

definition add_or_remove_group_for_staff :: "env \<Rightarrow> membership_model \<Rightarrow> error + effect list" where
  "add_or_remove_group_for_staff ev m =
     (case model_org m of
        Inl e \<Rightarrow> Inl e
      | Inr g \<Rightarrow>
          (case map_of org_type_to_group_mapping (o_type_code g) of
             None \<Rightarrow> Inr []
           | Some mapping_group \<Rightarrow>
               (case model_user m of
                  Inl e \<Rightarrow> Inl e
                | Inr usr \<Rightarrow>
                    (let is_in_group = (mapping_group \<in> set (e_user_groups ev (u_keycloak_guid usr)))
                     in case model_membership_status_id m of
                          Inl e \<Rightarrow> Inl e
                        | Inr sid \<Rightarrow>
                            (if sid = Status_ACTIVE \<and> \<not> is_in_group
                             then Inr [AddUserToGroup (u_keycloak_guid usr) mapping_group]
                             else if sid = Status_INACTIVE \<and> is_in_group
                             then Inr [RemoveUserFromGroup (u_keycloak_guid usr) mapping_group]
                             else Inr [])))))"

text \<open>\<open>_add_or_remove_group\<close>\<close>

definition add_or_remove_group :: "env \<Rightarrow> membership_model \<Rightarrow> error + effect list" where
  "add_or_remove_group ev m =
     (case model_membership_status_id m of
        Inl e \<Rightarrow> Inl e
      | Inr sid \<Rightarrow>
          (case model_user m of
             Inl e \<Rightarrow> Inl e
           | Inr usr \<Rightarrow>
               (let holders =
                      (if sid = Status_ACTIVE then [JoinAccountHoldersGroup (u_keycloak_guid usr)]
                       else if sid = Status_INACTIVE
                               \<and> length (e_find_orgs_for_user ev (u_id usr)) = 0
                       then [RemoveFromAccountHoldersGroup (u_keycloak_guid usr)]
                       else [])
                in case add_or_remove_group_for_staff ev m of
                     Inl e \<Rightarrow> Inl e
                   | Inr staff \<Rightarrow>
                       Inr (holders @ staff @ [UpdateUsersProductsKeycloakGroups (u_id usr)]))))"

text \<open>
  \<open>update_membership\<close>, lines 263 to 300: what follows the assignment, on the updated
  model.
\<close>

definition update_membership_effects ::
  "env \<Rightarrow> user_context \<Rightarrow> updated_fields \<Rightarrow> bool \<Rightarrow> membership_model \<Rightarrow> error + effect list" where
  "update_membership_effects ev ctx updated_fields admin_getting_removed m =
     (let updated_membership_status = dict_get updated_fields ''membership_status'' in
      case (if py_truthy (dict_get updated_fields ''membership_type'')
            then Inr (dict_get updated_fields ''membership_type'')
            else (case model_membership_type_code m of
                    Inl e \<Rightarrow> Inl e | Inr c \<Rightarrow> Inr (PStr c))) of
        Inl e \<Rightarrow> Inl e
      | Inr mtype \<Rightarrow>
     (case (if py_truthy updated_membership_status
            then py_id updated_membership_status else Inr 0) of
        Inl e \<Rightarrow> Inl e
      | Inr sid \<Rightarrow>
     (case (if py_truthy updated_membership_status
               \<and> sid \<in> set [Status_INACTIVE, Status_ACTIVE]
            then
              (case model_user m of
                 Inl e \<Rightarrow> Inl e
               | Inr usr \<Rightarrow>
                   (case model_attr m ''org_id'' of
                      Inl e \<Rightarrow> Inl e
                    | Inr org_id \<Rightarrow>
                        (if sid = Status_ACTIVE
                         then Inr [PublishActivity org_id ''APPROVE_TEAM_MEMBER'' mtype]
                         else
                           (case model_attr m ''user_id'' of
                              Inl e \<Rightarrow> Inl e
                            | Inr user_id \<Rightarrow>
                                Inr [PublishActivity org_id ''REMOVE_TEAM_MEMBER'' mtype,
                                     PublishTeamMemberEvent org_id user_id]))))
            else Inr []) of
        Inl e \<Rightarrow> Inl e
      | Inr published \<Rightarrow>
     (case add_or_remove_group ev m of
        Inl e \<Rightarrow> Inl e
      | Inr groups \<Rightarrow>
     (case model_user m of
        Inl e \<Rightarrow> Inl e
      | Inr usr \<Rightarrow>
     (let is_bcros_user = (u_login_source usr = LoginSource_BCROS) in
      case (if uc_is_staff ctx \<and> \<not> is_bcros_user \<and> length updated_fields \<noteq> 0
            then (case model_org m of
                    Inl e \<Rightarrow> Inl e
                  | Inr g \<Rightarrow> Inr [PublishToMailer ''TEAM_MODIFIED'' None])
            else Inr []) of
        Inl e \<Rightarrow> Inl e
      | Inr modified \<Rightarrow>
     (case (if uc_is_staff ctx \<and> \<not> is_bcros_user \<and> admin_getting_removed
               \<and> truthy (e_contact_email ev (u_id usr))
            then (case model_org m of
                    Inl e \<Rightarrow> Inl e
                  | Inr g \<Rightarrow>
                      Inr [PublishToMailer ''ADMIN_REMOVED'' (e_contact_email ev (u_id usr))])
            else Inr []) of
        Inl e \<Rightarrow> Inl e
      | Inr removed \<Rightarrow>
          Inr (ModelSave # published @ groups @ modified @ removed))))))))"

text \<open>
  \<open>update_membership\<close>: the outcome (an error, or the requests made to the collaborators)
  and the membership model after the call.
\<close>

definition update_membership ::
  "env \<Rightarrow> user_context \<Rightarrow> updated_fields \<Rightarrow> membership_model
     \<Rightarrow> (error + effect list) \<times> membership_model" where
  "update_membership ev ctx updated_fields m =
     (case update_membership_guards ev ctx updated_fields m of
        Inl e \<Rightarrow> (Inl e, m)
      | Inr admin_getting_removed \<Rightarrow>
          (let m' = apply_updated_fields updated_fields m
           in (update_membership_effects ev ctx updated_fields admin_getting_removed m', m')))"

text \<open>
  \<open>deactivate_membership\<close>; \<open>MembershipStatusCodeModel.get_membership_status_by_code("INACTIVE")\<close>
  is the status code whose \<open>id\<close> is \<open>Status.INACTIVE\<close>.
\<close>

definition deactivate_membership ::
  "env \<Rightarrow> user_context \<Rightarrow> membership_model \<Rightarrow> (error + effect list) \<times> membership_model" where
  "deactivate_membership ev ctx m =
     (case model_user m of
        Inl e \<Rightarrow> (Inl e, m)
      | Inr usr \<Rightarrow>
     (case (if u_username usr \<noteq> uc_user_name ctx
            then (case model_attr m ''org_id'' of
                    Inl e \<Rightarrow> Inl e
                  | Inr org_id \<Rightarrow>
                      (if check_auth ctx org_id [COORDINATOR, ADMIN] then Inr ()
                       else Inl Forbidden))
            else Inr ()) of
        Inl e \<Rightarrow> (Inl e, m)
      | Inr _ \<Rightarrow>
     (case model_attr m ''membership_type_code'' of
        Inl e \<Rightarrow> (Inl e, m)
      | Inr type_code \<Rightarrow>
     (case (if py_eq_str type_code ADMIN
            then (case model_attr m ''org_id'' of
                    Inl e \<Rightarrow> Inl e
                  | Inr org_id \<Rightarrow>
                      (if check_auth ctx org_id [ADMIN] then Inr () else Inl Forbidden))
            else Inr ()) of
        Inl e \<Rightarrow> (Inl e, m)
      | Inr _ \<Rightarrow>
     (let m' = setattr_model ''membership_status''
                 (PMembershipStatus \<lparr> status_id = Status_INACTIVE \<rparr>) m
      in (case add_or_remove_group ev m' of
            Inl e \<Rightarrow> Inl e
          | Inr groups \<Rightarrow>
              (case model_attr m' ''org_id'' of
                 Inl e \<Rightarrow> Inl e
               | Inr org_id \<Rightarrow>
                   (case model_attr m' ''user_id'' of
                      Inl e \<Rightarrow> Inl e
                    | Inr user_id \<Rightarrow>
                        Inr (ModelSave # groups
                             @ [PublishActivity org_id ''REMOVE_TEAM_MEMBER'' PNone,
                                PublishTeamMemberEvent org_id user_id]))),
          m'))))))"

text \<open>
  The requests and the owner count as the specification words them: a request that
  deactivates the membership (status to INACTIVE) or demotes it (membership type away from
  ADMIN), and the number of ACTIVE memberships of an org that hold the ADMIN role.
\<close>

definition requests_deactivation :: "updated_fields \<Rightarrow> bool" where
  "requests_deactivation updated_fields =
     (case dict_get updated_fields ''membership_status'' of
        PMembershipStatus s \<Rightarrow> status_id s = Status_INACTIVE
      | _ \<Rightarrow> False)"

definition requests_demotion :: "updated_fields \<Rightarrow> bool" where
  "requests_demotion updated_fields =
     (case dict_get updated_fields ''membership_type'' of
        PMembershipType t \<Rightarrow> code t \<noteq> ADMIN
      | PStr x \<Rightarrow> x \<noteq> ADMIN
      | _ \<Rightarrow> False)"

definition active_owner_count :: "org \<Rightarrow> nat" where
  "active_owner_count g =
     length (filter (\<lambda>x. membership_type_code x = ADMIN \<and> status x = Status_ACTIVE) (o_members g))"

section \<open>Example inputs\<close>

text \<open>Three bases created at 30 > 20 > 10 and their records, the second a name request.\<close>

definition ex_bases :: "affiliation_base list" where
  "ex_bases =
     [\<lparr> ab_identifier = ''BC0000001'', created = 30 \<rparr>,
      \<lparr> ab_identifier = ''NR 0000002'', created = 20 \<rparr>,
      \<lparr> ab_identifier = ''T0000003'', created = 10 \<rparr>]"

definition ex_business :: "string \<Rightarrow> business" where
  "ex_business i =
     \<lparr> identifier = Some i, nrNumber = None, draftType = None,
       legalType = Some ''BC'', nameRequest = None, extra = [] \<rparr>"

definition ex_name_request :: "string \<Rightarrow> string \<Rightarrow> name_request" where
  "ex_name_request n st =
     \<lparr> nrNum = Some n, stateCd = Some st, request_action_cd = Some ''NEW'', nr_extra = [] \<rparr>"

definition ex_entity :: "string option \<Rightarrow> entity" where
  "ex_entity stored = \<lparr> corp_type = ''BC'', business_identifier = ''BC0000001'', pass_code = stored \<rparr>"

text \<open>
  On a text of ASCII characters \<open>s.split()\<close> cuts at the blank, the controls 0x09 to 0x0D
  and the separators 0x1C to 0x1F, and \<open>s.upper()\<close> raises the letters a to z.
\<close>

definition ascii_is_space :: "char \<Rightarrow> bool" where
  "ascii_is_space c =
     (c \<in> set [CHR 0x20, CHR 0x09, CHR 0x0A, CHR 0x0B, CHR 0x0C, CHR 0x0D,
                CHR 0x1C, CHR 0x1D, CHR 0x1E, CHR 0x1F])"

fun ascii_split_acc :: "string \<Rightarrow> string \<Rightarrow> string list" where
  "ascii_split_acc w [] = (if w = [] then [] else [rev w])"
| "ascii_split_acc w (c # cs) =
     (if ascii_is_space c
      then (if w = [] then ascii_split_acc [] cs else rev w # ascii_split_acc [] cs)
      else ascii_split_acc (c # w) cs)"

definition ascii_split :: "string \<Rightarrow> string list" where
  "ascii_split s = ascii_split_acc [] s"

definition ascii_upper :: "string \<Rightarrow> string" where
  "ascii_upper s =
     map (\<lambda>c. if (97::nat) \<le> of_char c \<and> of_char c \<le> (122::nat)
               then char_of (of_char c - (32::nat)) else c) s"

text \<open>An environment with empty tables, for callers and parties whose names are ASCII text.\<close>

definition ex_env :: env where
  "ex_env =
     \<lparr> e_memberships = [], e_orgs = [], e_find_orgs_for_user = (\<lambda>u. []),
       e_user_groups = (\<lambda>g. []), e_contact_email = (\<lambda>u. None),
       e_check_if_sbc_staff = (\<lambda>u. False), e_parties = (\<lambda>b. None),
       e_verify_hash = (\<lambda>supplied h. h = supplied),
       e_str_split = ascii_split, e_str_upper = ascii_upper \<rparr>"

text \<open>A caller named \<open>n\<close> who holds the role \<open>r\<close> on org 10 and is not staff.\<close>

definition ex_caller :: "string \<Rightarrow> string \<Rightarrow> user_context" where
  "ex_caller n r =
     \<lparr> uc_user_name = n, uc_roles = [], uc_is_staff = False, uc_current_user = Some 2,
       uc_org_membership = [10 \<mapsto> r] \<rparr>"

text \<open>
  A membership of user 1 (alice) in org 10 with role \<open>t\<close> and status \<open>st\<close>, the org
  holding the member rows \<open>ms\<close>.
\<close>

definition ex_user :: user where
  "ex_user =
     \<lparr> u_id = 1, u_username = ''alice'', u_login_source = ''BCSC'', u_firstname = ''Alice'',
       u_lastname = ''Liddell'', u_keycloak_guid = ''guid-1'' \<rparr>"

definition ex_member :: "nat \<Rightarrow> nat \<Rightarrow> string \<Rightarrow> int \<Rightarrow> member" where
  "ex_member u g t s = \<lparr> m_user_id = u, m_org_id = g, membership_type_code = t, status = s \<rparr>"

definition ex_org :: "member list \<Rightarrow> org" where
  "ex_org ms = \<lparr> o_id = 10, o_type_code = ''PREMIUM'', o_members = ms \<rparr>"

definition ex_model :: "string \<Rightarrow> int \<Rightarrow> member list \<Rightarrow> membership_model" where
  "ex_model t st ms =
     [(''org_id'', PInt 10), (''user_id'', PInt 1), (''user'', PUser ex_user),
      (''org'', POrg (ex_org ms)),
      (''membership_type'', PMembershipType \<lparr> code = t \<rparr>),
      (''membership_type_code'', PStr t),
      (''membership_status'', PMembershipStatus \<lparr> status_id = st \<rparr>),
      (''status'', PInt st)]"

text \<open>User 1 is ACTIVE in the staff-tier org 20; org 10 is not staff-tier.\<close>

definition ex_env_staff :: env where
  "ex_env_staff =
     ex_env \<lparr> e_memberships := [ex_member 1 20 ''USER'' Status_ACTIVE,
                                ex_member 1 10 ''USER'' Status_PENDING_APPROVAL],
             e_orgs := [\<lparr> o_id = 20, o_type_code = ''SBC_STAFF'', o_members = [] \<rparr>, ex_org []] \<rparr>"

text \<open>A draft with identifier \<open>i\<close> and reference \<open>n\<close>, and a business that carries a reference.\<close>

definition ex_draft :: "string \<Rightarrow> string option \<Rightarrow> business" where
  "ex_draft i n =
     \<lparr> identifier = Some i, nrNumber = n, draftType = Some ''TMP'',
       legalType = Some ''BC'', nameRequest = None, extra = [] \<rparr>"

definition ex_linked_business :: "string \<Rightarrow> string \<Rightarrow> business" where
  "ex_linked_business i n = (ex_business i)\<lparr> nrNumber := Some n \<rparr>"

definition ex_response :: "name_request list \<Rightarrow> business list \<Rightarrow> business list \<Rightarrow> response" where
  "ex_response nrs bs ds =
     DictResponse \<lparr> requests = Some nrs, hasMore = Some False,
                    businessEntities = Some bs, draftEntities = Some ds \<rparr>"

section \<open>Properties of the ordering\<close>

lemma py_sort_reverse_mset: "mset (py_sort_reverse k xs) = mset xs"
  by (simp add: py_sort_reverse_def)

lemma py_sort_reverse_set: "set (py_sort_reverse k xs) = set xs"
  by (simp add: py_sort_reverse_def)

lemma py_sort_reverse_descending:
  "sorted_wrt (\<lambda>x y. k y \<le> k x) (py_sort_reverse k xs)"
proof -
  have "sorted (map k (sort_key k (rev xs)))"
    by (rule sorted_sort_key)
  then have "sorted_wrt (\<lambda>x y. k x \<le> k y) (sort_key k (rev xs))"
    by (simp add: sorted_map)
  then show ?thesis
    unfolding py_sort_reverse_def by (simp add: sorted_wrt_rev)
qed

lemma py_sort_reverse_stable:
  "filter (\<lambda>x. k x = t) (py_sort_reverse k xs) = filter (\<lambda>x. k x = t) xs"
proof -
  have "filter (\<lambda>x. k x = t) (sort_key k (rev xs)) = filter (\<lambda>x. k x = t) (rev xs)"
    by (rule sort_key_stable)
  then have "rev (filter (\<lambda>x. k x = t) (sort_key k (rev xs))) = filter (\<lambda>x. k x = t) xs"
    by (simp add: rev_filter)
  then show ?thesis
    unfolding py_sort_reverse_def by (simp add: rev_filter)
qed

lemma fold_upd_lookup:
  "distinct (map ab_identifier as) \<Longrightarrow>
   fold (\<lambda>a m. m(ab_identifier a \<mapsto> created a)) as m0 i =
     (case find (\<lambda>a. ab_identifier a = i) as of None \<Rightarrow> m0 i | Some a \<Rightarrow> Some (created a))"
proof (induction as arbitrary: m0)
  case Nil
  then show ?case by simp
next
  case (Cons a as)
  show ?case
  proof (cases "ab_identifier a = i")
    case True
    from Cons.prems have "ab_identifier a \<notin> ab_identifier ` set as"
      by simp
    with True have "\<forall>x\<in>set as. ab_identifier x \<noteq> i"
      by blast
    then have "find (\<lambda>a. ab_identifier a = i) as = None"
      by (simp add: find_None_iff)
    with True Cons show ?thesis by simp
  next
    case False
    with Cons show ?thesis by simp
  qed
qed

lemma find_distinct_key:
  assumes "distinct (map ab_identifier as)"
  shows "find (\<lambda>a. ab_identifier a = i) as = Some b \<longleftrightarrow> b \<in> set as \<and> ab_identifier b = i"
  using assms
proof (induction as)
  case Nil
  then show ?case by simp
next
  case (Cons a as)
  from Cons.prems have notin: "ab_identifier a \<notin> ab_identifier ` set as" and d: "distinct (map ab_identifier as)"
    by simp_all
  show ?case
  proof (cases "ab_identifier a = i")
    case True
    with notin have "\<forall>x\<in>set as. ab_identifier x \<noteq> i"
      by blast
    with True show ?thesis by auto
  next
    case False
    with Cons.IH [OF d] show ?thesis by auto
  qed
qed

lemma find_perm_distinct:
  assumes "distinct (map ab_identifier as)" and "mset bs = mset as"
  shows "find (\<lambda>a. ab_identifier a = i) bs = find (\<lambda>a. ab_identifier a = i) as"
proof -
  from assms(2) have "mset (map ab_identifier bs) = mset (map ab_identifier as)"
    by simp
  with assms(1) have dbs: "distinct (map ab_identifier bs)"
    by (metis distinct_count_atmost_1 set_mset_mset)
  from assms(2) have sets: "set bs = set as"
    by (metis set_mset_mset)
  show ?thesis
  proof (cases "find (\<lambda>a. ab_identifier a = i) as")
    case None
    then have "\<forall>a\<in>set as. ab_identifier a \<noteq> i"
      by (simp add: find_None_iff)
    with sets have "find (\<lambda>a. ab_identifier a = i) bs = None"
      by (simp add: find_None_iff)
    with None show ?thesis by simp
  next
    case (Some b)
    with assms(1) have "b \<in> set as \<and> ab_identifier b = i"
      by (simp add: find_distinct_key)
    with sets dbs have "find (\<lambda>a. ab_identifier a = i) bs = Some b"
      by (simp add: find_distinct_key)
    with Some show ?thesis by simp
  qed
qed

lemma sort_key_item_base_created:
  assumes "distinct (map ab_identifier affiliation_bases)"
  shows "sort_key_item (ordered_dict affiliation_bases) item = base_created affiliation_bases item"
proof -
  let ?bs = "py_sort_reverse created affiliation_bases"
  have m: "mset ?bs = mset affiliation_bases"
    by (rule py_sort_reverse_mset)
  then have "mset (map ab_identifier ?bs) = mset (map ab_identifier affiliation_bases)"
    by simp
  with assms have d: "distinct (map ab_identifier ?bs)"
    by (metis distinct_count_atmost_1 set_mset_mset)
  have "ordered_dict affiliation_bases (item_identifier item) =
        (case find (\<lambda>a. ab_identifier a = item_identifier item) ?bs of
           None \<Rightarrow> None | Some a \<Rightarrow> Some (created a))"
    unfolding ordered_dict_def using fold_upd_lookup [OF d] by simp
  also have "find (\<lambda>a. ab_identifier a = item_identifier item) ?bs =
             find (\<lambda>a. ab_identifier a = item_identifier item) affiliation_bases"
    using find_perm_distinct [OF assms m] .
  finally show ?thesis
    by (simp add: sort_key_item_def base_created_def split: option.splits)
qed

text \<open>
  C7.  When the bases carry pairwise distinct identifiers, the result of
  \<open>_sort_affiliations_by_created\<close> is a rearrangement of the combined list in descending
  order of the creation timestamp of the base matching each record (a record without
  \<open>identifier\<close> is looked up by the number of its name request), and records with equal
  timestamps keep the order they had in the combined list.
\<close>

theorem sort_affiliations_by_created_descending_stable:
  assumes "distinct (map ab_identifier affiliation_bases)"
  shows "sorted_wrt (\<lambda>x y. base_created affiliation_bases y \<le> base_created affiliation_bases x)
           (sort_affiliations_by_created combined affiliation_bases)
       \<and> mset (sort_affiliations_by_created combined affiliation_bases) = mset combined
       \<and> filter (\<lambda>x. base_created affiliation_bases x = t)
           (sort_affiliations_by_created combined affiliation_bases)
         = filter (\<lambda>x. base_created affiliation_bases x = t) combined"
proof -
  have k: "sort_key_item (ordered_dict affiliation_bases) = base_created affiliation_bases"
    using sort_key_item_base_created [OF assms] by (simp add: fun_eq_iff)
  show ?thesis
    unfolding sort_affiliations_by_created_def k
    using py_sort_reverse_descending [of "base_created affiliation_bases" combined]
      py_sort_reverse_mset [of "base_created affiliation_bases" combined]
      py_sort_reverse_stable [of "base_created affiliation_bases" t combined]
    by simp
qed

theorem sort_affiliations_by_created_descending_stable_witness:
  "distinct (map ab_identifier ex_bases)
   \<and> sort_affiliations_by_created
       [ex_business ''T0000003'', ex_business ''BC0000001'',
        nr_record (ex_name_request ''NR 0000002'' ''APPROVED'')] ex_bases
     = [ex_business ''BC0000001'', nr_record (ex_name_request ''NR 0000002'' ''APPROVED''),
        ex_business ''T0000003'']
   \<and> sorted_wrt (\<lambda>x y. base_created ex_bases y \<le> base_created ex_bases x)
       (sort_affiliations_by_created
          [ex_business ''T0000003'', ex_business ''BC0000001'',
           nr_record (ex_name_request ''NR 0000002'' ''APPROVED'')] ex_bases)"
proof -
  have h: "distinct (map ab_identifier ex_bases)"
    by (simp add: ex_bases_def)
  have e: "sort_affiliations_by_created
       [ex_business ''T0000003'', ex_business ''BC0000001'',
        nr_record (ex_name_request ''NR 0000002'' ''APPROVED'')] ex_bases
     = [ex_business ''BC0000001'', nr_record (ex_name_request ''NR 0000002'' ''APPROVED''),
        ex_business ''T0000003'']"
    by (simp add: sort_affiliations_by_created_def py_sort_reverse_def ordered_dict_def
        sort_key_item_def item_identifier_def ex_bases_def ex_business_def nr_record_def
        ex_name_request_def datetime_min_def)
  from sort_affiliations_by_created_descending_stable [OF h] h e show ?thesis
    by blast
qed

section \<open>Properties of the linking\<close>

subsection \<open>Removal from the list of drafts\<close>

lemma remove_first_split:
  "remove_first P xs = Some ys \<Longrightarrow>
   \<exists>pre t post. xs = pre @ t # post \<and> (\<forall>u\<in>set pre. \<not> P u) \<and> P t \<and> ys = pre @ post"
proof (induction xs arbitrary: ys)
  case Nil
  then show ?case by simp
next
  case (Cons x xs)
  show ?case
  proof (cases "P x")
    case True
    with Cons.prems have "ys = xs" by simp
    with True have "x # xs = [] @ x # xs \<and> (\<forall>u\<in>set []. \<not> P u) \<and> P x \<and> ys = [] @ xs"
      by simp
    then show ?thesis by blast
  next
    case False
    with Cons.prems obtain zs where zs: "remove_first P xs = Some zs" and ys: "ys = x # zs"
      by (auto split: option.splits)
    from Cons.IH [OF zs] obtain pre t post where
      "xs = pre @ t # post" "\<forall>u\<in>set pre. \<not> P u" "P t" "zs = pre @ post"
      by blast
    with False ys have "x # xs = (x # pre) @ t # post \<and> (\<forall>u\<in>set (x # pre). \<not> P u) \<and> P t
        \<and> ys = (x # pre) @ post"
      by simp
    then show ?thesis by blast
  qed
qed

lemma remove_first_exists:
  "list_ex P xs \<Longrightarrow> \<exists>ys. remove_first P xs = Some ys"
  by (induction xs) auto

lemma remove_first_subset:
  "remove_first P xs = Some ys \<Longrightarrow> set ys \<subseteq> set xs"
  by (drule remove_first_split) auto

lemma remove_first_sorted:
  "remove_first P xs = Some ys \<Longrightarrow> sorted_wrt (<) xs \<Longrightarrow> sorted_wrt (<) ys"
  by (drule remove_first_split) (auto simp: sorted_wrt_append)

text \<open>In an increasing list the element removed is the least one that satisfies the test.\<close>

lemma remove_first_least:
  assumes "remove_first P xs = Some ys" and "sorted_wrt (<) xs"
  shows "\<exists>t. t \<in> set xs \<and> P t \<and> t \<notin> set ys \<and> set ys = set xs - {t}
             \<and> (\<forall>u\<in>set xs. P u \<longrightarrow> t \<le> u)"
proof -
  from remove_first_split [OF assms(1)] obtain pre t post where
    xs: "xs = pre @ t # post" and pre: "\<forall>u\<in>set pre. \<not> P u" and t: "P t" and ys: "ys = pre @ post"
    by blast
  from assms(2) xs have lt: "\<forall>u\<in>set pre. u < t" and gt: "\<forall>u\<in>set post. t < u"
    by (auto simp: sorted_wrt_append)
  from lt gt have "t \<notin> set pre" "t \<notin> set post"
    by auto
  with xs ys have a: "t \<notin> set ys" "set ys = set xs - {t}"
    by auto
  have "\<forall>u\<in>set xs. P u \<longrightarrow> t \<le> u"
    using xs pre gt by auto
  with xs t a show ?thesis
    by auto
qed

lemma combine_step_noref:
  "\<not> truthy (nrNumber (st_objects s ! a)) \<Longrightarrow> combine_step flag a s = Inr s"
  by (simp add: combine_step_def)

lemma combine_step_unresolved:
  assumes "combine_step flag a s = Inr s'"
    and "nrNumber (st_objects s ! a) = Some n" and "n \<noteq> []"
    and "map_of (st_name_requests s) n = None"
  shows "st_objects s' = st_objects s \<and> st_name_requests s' = st_name_requests s
       \<and> (if flag \<and> list_ex (\<lambda>t. st_objects s ! t = st_objects s ! a) (st_drafts s)
          then remove_first (\<lambda>t. st_objects s ! t = st_objects s ! a) (st_drafts s)
                 = Some (st_drafts s')
          else st_drafts s' = st_drafts s)"
  using assms
  by (auto simp: combine_step_def process_nr_for_business_def truthy_def
      split: option.splits if_splits)

lemma update_draft_type_keeps:
  "update_draft_type_for_amalgamation_nr b = Inr b' \<Longrightarrow>
   nrNumber b' = nrNumber b \<and> identifier b' = identifier b \<and> nameRequest b' = nameRequest b"
  by (auto simp: update_draft_type_for_amalgamation_nr_def split: if_splits option.splits)

lemma process_resolved:
  assumes "process_nr_for_business a s = Inr (pr, s')"
    and "nrNumber (st_objects s ! a) = Some n"
    and "map_of (st_name_requests s) n = Some w"
    and "a < length (st_objects s)"
  shows "pr \<and> (\<exists>b. st_objects s' = (st_objects s)[a := b] \<and> nrNumber b = Some n
                \<and> identifier b = identifier (st_objects s ! a))
       \<and> st_name_requests s' = AList.delete n (st_name_requests s)
       \<and> (st_drafts s' = st_drafts s
          \<or> remove_first (\<lambda>t. st_objects s' ! t = st_objects s' ! a) (st_drafts s)
               = Some (st_drafts s'))"
proof -
  from assms(1-3) obtain nr b st where nr: "nameRequest w = Some nr"
    and b: "update_draft_type_for_amalgamation_nr ((st_objects s ! a)\<lparr>nameRequest := Some nr\<rparr>) = Inr b"
    and st: "stateCd nr = Some st"
    by (auto simp: process_nr_for_business_def split: option.splits sum.splits)
  from update_draft_type_keeps [OF b] assms(2)
  have kb: "nrNumber b = Some n" "identifier b = identifier (st_objects s ! a)"
    by simp_all
  let ?objs = "(st_objects s)[a := b]"
  from assms(4) have ba: "?objs ! a = b" by simp
  show ?thesis
  proof (cases "st = NRStatus_CONSUMED")
    case True
    with assms(1-3) nr b st obtain ds where
      ds: "remove_first (\<lambda>t. ?objs ! t = b) (st_drafts s) = Some ds"
      and s': "s' = \<lparr> st_objects = ?objs, st_drafts = ds,
                     st_name_requests = AList.delete n (st_name_requests s) \<rparr>" and pr: "pr"
      by (auto simp: process_nr_for_business_def Let_def split: option.splits)
    from ds ba s' have "remove_first (\<lambda>t. st_objects s' ! t = st_objects s' ! a) (st_drafts s)
               = Some (st_drafts s')"
      by simp
    with s' pr kb show ?thesis by auto
  next
    case False
    with assms(1-3) nr b st have
      s': "s' = \<lparr> st_objects = ?objs, st_drafts = st_drafts s,
                     st_name_requests = AList.delete n (st_name_requests s) \<rparr>" and pr: "pr"
      by (auto simp: process_nr_for_business_def Let_def split: option.splits)
    with kb show ?thesis by auto
  qed
qed

lemma combine_step_resolved:
  assumes "combine_step flag a s = Inr s'"
    and "nrNumber (st_objects s ! a) = Some n" and "n \<noteq> []"
    and "map_of (st_name_requests s) n = Some w"
    and "a < length (st_objects s)"
  shows "(\<exists>b. st_objects s' = (st_objects s)[a := b] \<and> nrNumber b = Some n
                \<and> identifier b = identifier (st_objects s ! a))
       \<and> st_name_requests s' = AList.delete n (st_name_requests s)
       \<and> (st_drafts s' = st_drafts s
          \<or> remove_first (\<lambda>t. st_objects s' ! t = st_objects s' ! a) (st_drafts s)
               = Some (st_drafts s'))"
proof -
  from assms(1-3) obtain pr s1 where p: "process_nr_for_business a s = Inr (pr, s1)"
    by (auto simp: combine_step_def truthy_def split: sum.splits)
  from process_resolved [OF p assms(2) assms(4) assms(5)] have pr: pr and
    r: "(\<exists>b. st_objects s1 = (st_objects s)[a := b] \<and> nrNumber b = Some n
                \<and> identifier b = identifier (st_objects s ! a))
       \<and> st_name_requests s1 = AList.delete n (st_name_requests s)
       \<and> (st_drafts s1 = st_drafts s
          \<or> remove_first (\<lambda>t. st_objects s1 ! t = st_objects s1 ! a) (st_drafts s)
               = Some (st_drafts s1))"
    by blast+
  from assms(1-3) p pr have "s' = s1"
    by (simp add: combine_step_def truthy_def)
  with r show ?thesis by simp
qed

text \<open>What one round of the loop may change.\<close>

lemma combine_step_summary:
  assumes "combine_step flag a s = Inr s'" and "a < length (st_objects s)"
  shows "length (st_objects s') = length (st_objects s)"
    and "nrNumber (st_objects s' ! j) = nrNumber (st_objects s ! j)"
    and "identifier (st_objects s' ! j) = identifier (st_objects s ! j)"
    and "j \<noteq> a \<Longrightarrow> st_objects s' ! j = st_objects s ! j"
    and "st_name_requests s' = st_name_requests s
         \<or> (\<exists>n. st_name_requests s' = AList.delete n (st_name_requests s))"
    and "truthy (nrNumber (st_objects s ! a)) \<Longrightarrow>
         py_str (nrNumber (st_objects s ! a)) \<notin> fst ` set (st_name_requests s')"
    and "st_drafts s' = st_drafts s
         \<or> remove_first (\<lambda>t. st_objects s' ! t = st_objects s' ! a) (st_drafts s)
              = Some (st_drafts s')"
proof -
  consider (noref) "\<not> truthy (nrNumber (st_objects s ! a))"
    | (unres) n where "nrNumber (st_objects s ! a) = Some n" "n \<noteq> []"
        "map_of (st_name_requests s) n = None"
    | (res) n w where "nrNumber (st_objects s ! a) = Some n" "n \<noteq> []"
        "map_of (st_name_requests s) n = Some w"
    by (cases "nrNumber (st_objects s ! a)"; cases "map_of (st_name_requests s) (py_str (nrNumber (st_objects s ! a)))")
      (auto simp: truthy_def py_str_def)
  then have "length (st_objects s') = length (st_objects s)
    \<and> nrNumber (st_objects s' ! j) = nrNumber (st_objects s ! j)
    \<and> identifier (st_objects s' ! j) = identifier (st_objects s ! j)
    \<and> (j \<noteq> a \<longrightarrow> st_objects s' ! j = st_objects s ! j)
    \<and> (st_name_requests s' = st_name_requests s
         \<or> (\<exists>n. st_name_requests s' = AList.delete n (st_name_requests s)))
    \<and> (truthy (nrNumber (st_objects s ! a)) \<longrightarrow>
         py_str (nrNumber (st_objects s ! a)) \<notin> fst ` set (st_name_requests s'))
    \<and> (st_drafts s' = st_drafts s
         \<or> remove_first (\<lambda>t. st_objects s' ! t = st_objects s' ! a) (st_drafts s)
              = Some (st_drafts s'))"
  proof cases
    case noref
    with assms(1) have "s' = s" by (simp add: combine_step_noref)
    with noref show ?thesis by simp
  next
    case unres
    from combine_step_unresolved [OF assms(1) unres]
    have o: "st_objects s' = st_objects s" and k: "st_name_requests s' = st_name_requests s"
      and d: "if flag \<and> list_ex (\<lambda>t. st_objects s ! t = st_objects s ! a) (st_drafts s)
          then remove_first (\<lambda>t. st_objects s ! t = st_objects s ! a) (st_drafts s)
                 = Some (st_drafts s')
          else st_drafts s' = st_drafts s"
      by simp_all
    from unres(3) have "n \<notin> fst ` set (st_name_requests s)"
      by (simp add: map_of_eq_None_iff)
    with o k d unres show ?thesis
      by (auto simp: py_str_def split: if_splits)
  next
    case res
    from combine_step_resolved [OF assms(1) res assms(2)] obtain b where
      b: "st_objects s' = (st_objects s)[a := b]" "nrNumber b = Some n"
         "identifier b = identifier (st_objects s ! a)"
      and k: "st_name_requests s' = AList.delete n (st_name_requests s)"
      and d: "st_drafts s' = st_drafts s
          \<or> remove_first (\<lambda>t. st_objects s' ! t = st_objects s' ! a) (st_drafts s)
               = Some (st_drafts s')"
      by blast
    have "n \<notin> fst ` set (AList.delete n (st_name_requests s))"
      by (auto simp: AList.delete_eq)
    with b k d res assms(2) show ?thesis
      by (cases "j = a") (auto simp: py_str_def)
  qed
  then show "length (st_objects s') = length (st_objects s)"
    and "nrNumber (st_objects s' ! j) = nrNumber (st_objects s ! j)"
    and "identifier (st_objects s' ! j) = identifier (st_objects s ! j)"
    and "j \<noteq> a \<Longrightarrow> st_objects s' ! j = st_objects s ! j"
    and "st_name_requests s' = st_name_requests s
         \<or> (\<exists>n. st_name_requests s' = AList.delete n (st_name_requests s))"
    and "truthy (nrNumber (st_objects s ! a)) \<Longrightarrow>
         py_str (nrNumber (st_objects s ! a)) \<notin> fst ` set (st_name_requests s')"
    and "st_drafts s' = st_drafts s
         \<or> remove_first (\<lambda>t. st_objects s' ! t = st_objects s' ! a) (st_drafts s)
              = Some (st_drafts s')"
    by blast+
qed

subsection \<open>Invariants of the loop\<close>

lemma delete_keys_subset: "fst ` set (AList.delete n al) \<subseteq> fst ` set al"
  by (auto simp: AList.delete_eq)

lemma delete_set_subset: "set (AList.delete n al) \<subseteq> set al"
  by (auto simp: AList.delete_eq)

lemma combine_step_keys:
  assumes "combine_step flag a s = Inr s'" and "a < length (st_objects s)"
  shows "set (st_name_requests s') \<subseteq> set (st_name_requests s)"
    and "distinct (map fst (st_name_requests s)) \<Longrightarrow> distinct (map fst (st_name_requests s'))"
proof -
  from combine_step_summary(5) [OF assms]
  show "set (st_name_requests s') \<subseteq> set (st_name_requests s)"
  proof
    assume "st_name_requests s' = st_name_requests s"
    then show ?thesis by simp
  next
    assume "\<exists>n. st_name_requests s' = AList.delete n (st_name_requests s)"
    then obtain n where "st_name_requests s' = AList.delete n (st_name_requests s)" ..
    then show ?thesis using delete_set_subset [of n "st_name_requests s"] by simp
  qed
  assume d: "distinct (map fst (st_name_requests s))"
  from combine_step_summary(5) [OF assms]
  show "distinct (map fst (st_name_requests s'))"
  proof
    assume "st_name_requests s' = st_name_requests s"
    with d show ?thesis by simp
  next
    assume "\<exists>n. st_name_requests s' = AList.delete n (st_name_requests s)"
    then obtain n where "st_name_requests s' = AList.delete n (st_name_requests s)" ..
    with d show ?thesis by (simp add: distinct_delete)
  qed
qed

lemma combine_step_drafts:
  assumes "combine_step flag a s = Inr s'" and "a < length (st_objects s)"
  shows "set (st_drafts s') \<subseteq> set (st_drafts s)"
    and "sorted_wrt (<) (st_drafts s) \<Longrightarrow> sorted_wrt (<) (st_drafts s')"
proof -
  from combine_step_summary(7) [OF assms]
  show "set (st_drafts s') \<subseteq> set (st_drafts s)"
  proof
    assume "st_drafts s' = st_drafts s"
    then show ?thesis by simp
  next
    assume "remove_first (\<lambda>t. st_objects s' ! t = st_objects s' ! a) (st_drafts s)
              = Some (st_drafts s')"
    then show ?thesis by (rule remove_first_subset)
  qed
  assume o: "sorted_wrt (<) (st_drafts s)"
  from combine_step_summary(7) [OF assms]
  show "sorted_wrt (<) (st_drafts s')"
  proof
    assume "st_drafts s' = st_drafts s"
    with o show ?thesis by simp
  next
    assume "remove_first (\<lambda>t. st_objects s' ! t = st_objects s' ! a) (st_drafts s)
              = Some (st_drafts s')"
    then show ?thesis using o by (rule remove_first_sorted)
  qed
qed

text \<open>What the whole loop preserves.\<close>

lemma combine_loop_basic:
  assumes "combine_loop flag as s = Inr s'" and "\<forall>a\<in>set as. a < length (st_objects s)"
  shows "length (st_objects s') = length (st_objects s)
       \<and> (\<forall>j. nrNumber (st_objects s' ! j) = nrNumber (st_objects s ! j))
       \<and> (\<forall>j. identifier (st_objects s' ! j) = identifier (st_objects s ! j))
       \<and> (\<forall>j. j \<notin> set as \<longrightarrow> st_objects s' ! j = st_objects s ! j)
       \<and> set (st_name_requests s') \<subseteq> set (st_name_requests s)
       \<and> (distinct (map fst (st_name_requests s)) \<longrightarrow> distinct (map fst (st_name_requests s')))
       \<and> set (st_drafts s') \<subseteq> set (st_drafts s)
       \<and> (sorted_wrt (<) (st_drafts s) \<longrightarrow> sorted_wrt (<) (st_drafts s'))
       \<and> (\<forall>a\<in>set as. truthy (nrNumber (st_objects s ! a)) \<longrightarrow>
             py_str (nrNumber (st_objects s ! a)) \<notin> fst ` set (st_name_requests s'))"
  using assms
proof (induction as arbitrary: s)
  case Nil
  then show ?case by simp
next
  case (Cons a as)
  from Cons.prems(1) obtain s1 where st: "combine_step flag a s = Inr s1"
    and lp: "combine_loop flag as s1 = Inr s'"
    by (auto split: sum.splits)
  from Cons.prems(2) have a: "a < length (st_objects s)" by simp
  note sm = combine_step_summary [OF st a]
  from sm(1) Cons.prems(2) have as: "\<forall>a\<in>set as. a < length (st_objects s1)"
    by simp
  note ih = Cons.IH [OF lp as]
  have k1: "set (st_name_requests s1) \<subseteq> set (st_name_requests s)"
    and d1: "distinct (map fst (st_name_requests s)) \<Longrightarrow> distinct (map fst (st_name_requests s1))"
    using combine_step_keys [OF st a] by blast+
  have r1: "set (st_drafts s1) \<subseteq> set (st_drafts s)"
    and o1: "sorted_wrt (<) (st_drafts s) \<Longrightarrow> sorted_wrt (<) (st_drafts s1)"
    using combine_step_drafts [OF st a] by blast+
  have "length (st_objects s') = length (st_objects s)"
    using ih sm(1) by simp
  moreover have "\<forall>j. nrNumber (st_objects s' ! j) = nrNumber (st_objects s ! j)"
    using ih sm(2) by simp
  moreover have "\<forall>j. identifier (st_objects s' ! j) = identifier (st_objects s ! j)"
    using ih sm(3) by simp
  moreover have "\<forall>j. j \<notin> set (a # as) \<longrightarrow> st_objects s' ! j = st_objects s ! j"
    using ih sm(4) by simp
  moreover have "set (st_name_requests s') \<subseteq> set (st_name_requests s)"
    using ih k1 by blast
  moreover have "distinct (map fst (st_name_requests s)) \<longrightarrow> distinct (map fst (st_name_requests s'))"
    using ih d1 by blast
  moreover have "set (st_drafts s') \<subseteq> set (st_drafts s)"
    using ih r1 by blast
  moreover have "sorted_wrt (<) (st_drafts s) \<longrightarrow> sorted_wrt (<) (st_drafts s')"
    using ih o1 by blast
  moreover have "\<forall>x\<in>set (a # as). truthy (nrNumber (st_objects s ! x)) \<longrightarrow>
             py_str (nrNumber (st_objects s ! x)) \<notin> fst ` set (st_name_requests s')"
  proof
    fix x assume x: "x \<in> set (a # as)"
    show "truthy (nrNumber (st_objects s ! x)) \<longrightarrow>
             py_str (nrNumber (st_objects s ! x)) \<notin> fst ` set (st_name_requests s')"
    proof (cases "x \<in> set as")
      case True
      with ih have "truthy (nrNumber (st_objects s1 ! x)) \<longrightarrow>
             py_str (nrNumber (st_objects s1 ! x)) \<notin> fst ` set (st_name_requests s')"
        by blast
      with sm(2) [of x] show ?thesis by simp
    next
      case False
      with x have xa: "x = a" by simp
      from ih have "fst ` set (st_name_requests s') \<subseteq> fst ` set (st_name_requests s1)"
        by blast
      with sm(6) xa show ?thesis by blast
    qed
  qed
  ultimately show ?case by blast
qed

text \<open>A draft without a reference stays where it is.\<close>

lemma combine_step_noref_kept:
  assumes "combine_step flag a s = Inr s'" and "a < length (st_objects s)"
    and "\<not> truthy (nrNumber (st_objects s ! j))" and "j \<in> set (st_drafts s)"
  shows "j \<in> set (st_drafts s') \<and> st_objects s' ! j = st_objects s ! j"
proof (cases "truthy (nrNumber (st_objects s ! a))")
  case False
  with assms(1) have "s' = s" by (simp add: combine_step_noref)
  with assms(4) show ?thesis by simp
next
  case True
  with assms(3) have ja: "j \<noteq> a" by auto
  note sm = combine_step_summary [OF assms(1,2)]
  from sm(4) [OF ja] have o: "st_objects s' ! j = st_objects s ! j" .
  from sm(7) have "j \<in> set (st_drafts s')"
  proof
    assume "st_drafts s' = st_drafts s"
    with assms(4) show ?thesis by simp
  next
    assume "remove_first (\<lambda>t. st_objects s' ! t = st_objects s' ! a) (st_drafts s)
              = Some (st_drafts s')"
    from remove_first_split [OF this] obtain pre t post where
      xs: "st_drafts s = pre @ t # post" and t: "st_objects s' ! t = st_objects s' ! a"
      and ys: "st_drafts s' = pre @ post"
      by blast
    from t have "nrNumber (st_objects s' ! t) = nrNumber (st_objects s' ! a)" by simp
    with sm(2) have "nrNumber (st_objects s ! t) = nrNumber (st_objects s ! a)" by simp
    with True assms(3) have "t \<noteq> j" by auto
    with xs ys assms(4) show ?thesis by auto
  qed
  with o show ?thesis by simp
qed

lemma combine_loop_noref_kept:
  assumes "combine_loop flag as s = Inr s'" and "\<forall>a\<in>set as. a < length (st_objects s)"
    and "\<not> truthy (nrNumber (st_objects s ! j))" and "j \<in> set (st_drafts s)"
  shows "j \<in> set (st_drafts s') \<and> st_objects s' ! j = st_objects s ! j"
  using assms
proof (induction as arbitrary: s)
  case Nil
  then show ?case by simp
next
  case (Cons a as)
  from Cons.prems(1) obtain s1 where st: "combine_step flag a s = Inr s1"
    and lp: "combine_loop flag as s1 = Inr s'"
    by (auto split: sum.splits)
  from Cons.prems(2) have a: "a < length (st_objects s)" by simp
  note sm = combine_step_summary [OF st a]
  from sm(1) Cons.prems(2) have as: "\<forall>a\<in>set as. a < length (st_objects s1)"
    by simp
  from combine_step_noref_kept [OF st a Cons.prems(3,4)]
  have k: "j \<in> set (st_drafts s1)" and o: "st_objects s1 ! j = st_objects s ! j"
    by simp_all
  from o Cons.prems(3) have "\<not> truthy (nrNumber (st_objects s1 ! j))" by simp
  from Cons.IH [OF lp as this k] o show ?case by simp
qed

lemma reference_unresolved_nrNumber:
  "nrNumber b = nrNumber b' \<Longrightarrow> reference_unresolved K b = reference_unresolved K b'"
  by (simp add: reference_unresolved_def)

text \<open>Without stale-draft removal a draft whose reference never resolves stays.\<close>

lemma combine_step_unresolved_kept:
  assumes st: "combine_step False a s = Inr s'" and a: "a < length (st_objects s)"
    and u: "reference_unresolved nrs0 (st_objects s ! j)"
    and k: "set (st_name_requests s) \<subseteq> set nrs0"
    and j: "j \<in> set (st_drafts s)"
  shows "j \<in> set (st_drafts s') \<and> st_objects s' ! j = st_objects s ! j"
proof (cases "truthy (nrNumber (st_objects s ! a))")
  case False
  with st have "s' = s" by (simp add: combine_step_noref)
  with j show ?thesis by simp
next
  case True
  then obtain n where n: "nrNumber (st_objects s ! a) = Some n" "n \<noteq> []"
    by (auto simp: truthy_def split: option.splits)
  show ?thesis
  proof (cases "map_of (st_name_requests s) n")
    case None
    from combine_step_unresolved [OF st n None] j show ?thesis by simp
  next
    case (Some w)
    then have "n \<in> fst ` set (st_name_requests s)"
      by (metis map_of_eq_None_iff option.distinct(1))
    with k have nk: "n \<in> fst ` set nrs0" by auto
    with u n have ne: "nrNumber (st_objects s ! j) \<noteq> nrNumber (st_objects s ! a)"
      by (force simp: reference_unresolved_def py_str_def)
    then have ja: "j \<noteq> a" by auto
    note sm = combine_step_summary [OF st a]
    from sm(4) [OF ja] have o: "st_objects s' ! j = st_objects s ! j" .
    from sm(7) have "j \<in> set (st_drafts s')"
    proof
      assume "st_drafts s' = st_drafts s"
      with j show ?thesis by simp
    next
      assume "remove_first (\<lambda>t. st_objects s' ! t = st_objects s' ! a) (st_drafts s)
                = Some (st_drafts s')"
      from remove_first_split [OF this] obtain pre t post where
        xs: "st_drafts s = pre @ t # post" and t: "st_objects s' ! t = st_objects s' ! a"
        and ys: "st_drafts s' = pre @ post"
        by blast
      from t have "nrNumber (st_objects s' ! t) = nrNumber (st_objects s' ! a)" by simp
      with sm(2) have "nrNumber (st_objects s ! t) = nrNumber (st_objects s ! a)" by simp
      with ne have "t \<noteq> j" by auto
      with xs ys j show ?thesis by auto
    qed
    with o show ?thesis by simp
  qed
qed

lemma combine_loop_unresolved_kept:
  assumes "combine_loop False as s = Inr s'" and "\<forall>a\<in>set as. a < length (st_objects s)"
    and "reference_unresolved nrs0 (st_objects s ! j)"
    and "set (st_name_requests s) \<subseteq> set nrs0"
    and "j \<in> set (st_drafts s)"
  shows "j \<in> set (st_drafts s') \<and> st_objects s' ! j = st_objects s ! j"
  using assms
proof (induction as arbitrary: s)
  case Nil
  then show ?case by simp
next
  case (Cons a as)
  from Cons.prems(1) obtain s1 where st: "combine_step False a s = Inr s1"
    and lp: "combine_loop False as s1 = Inr s'"
    by (auto split: sum.splits)
  from Cons.prems(2) have a: "a < length (st_objects s)" by simp
  note sm = combine_step_summary [OF st a]
  from sm(1) Cons.prems(2) have as: "\<forall>a\<in>set as. a < length (st_objects s1)"
    by simp
  from combine_step_unresolved_kept [OF st a Cons.prems(3,4,5)]
  have k: "j \<in> set (st_drafts s1)" and o: "st_objects s1 ! j = st_objects s ! j"
    by simp_all
  from o Cons.prems(3) have u1: "reference_unresolved nrs0 (st_objects s1 ! j)" by simp
  from combine_step_keys(1) [OF st a] Cons.prems(4)
  have k1: "set (st_name_requests s1) \<subseteq> set nrs0" by blast
  from Cons.IH [OF lp as u1 k1 k] o show ?case by simp
qed

text \<open>
  With stale-draft removal, once the loop has passed an address, no draft left below it
  carries a reference that does not resolve.
\<close>

lemma combine_step_unresolved_removed:
  assumes st: "combine_step True a s = Inr s'" and a: "a < length (st_objects s)"
    and o: "sorted_wrt (<) (st_drafts s)"
    and k: "set (st_name_requests s) \<subseteq> set nrs0"
    and inv: "\<forall>t\<in>set (st_drafts s). t < a \<longrightarrow> \<not> reference_unresolved nrs0 (st_objects s ! t)"
  shows "\<forall>t\<in>set (st_drafts s'). t < Suc a \<longrightarrow> \<not> reference_unresolved nrs0 (st_objects s' ! t)"
proof (intro ballI impI)
  fix t assume t: "t \<in> set (st_drafts s')" and lt: "t < Suc a"
  note sm = combine_step_summary [OF st a]
  from combine_step_drafts(1) [OF st a] t have ts: "t \<in> set (st_drafts s)" by blast
  have same: "reference_unresolved nrs0 (st_objects s' ! t) = reference_unresolved nrs0 (st_objects s ! t)"
    using sm(2) [of t] by (rule reference_unresolved_nrNumber)
  show "\<not> reference_unresolved nrs0 (st_objects s' ! t)"
  proof (cases "t < a")
    case True
    with inv ts same show ?thesis by simp
  next
    case False
    with lt have ta: "t = a" by simp
    show ?thesis
    proof
      assume "reference_unresolved nrs0 (st_objects s' ! t)"
      with same ta have u: "reference_unresolved nrs0 (st_objects s ! a)" by simp
      then obtain n where n: "nrNumber (st_objects s ! a) = Some n" "n \<noteq> []"
        and nk: "n \<notin> fst ` set nrs0"
        by (auto simp: reference_unresolved_def truthy_def py_str_def split: option.splits)
      from nk k have "n \<notin> fst ` set (st_name_requests s)" by auto
      then have none: "map_of (st_name_requests s) n = None"
        by (simp add: map_of_eq_None_iff)
      let ?P = "\<lambda>t. st_objects s ! t = st_objects s ! a"
      from ts ta have "list_ex ?P (st_drafts s)"
        by (auto simp: list_ex_iff)
      with combine_step_unresolved [OF st n none]
      have rm: "remove_first ?P (st_drafts s) = Some (st_drafts s')" by simp
      from remove_first_least [OF rm o] obtain t0 where
        t0: "t0 \<in> set (st_drafts s)" "?P t0" "t0 \<notin> set (st_drafts s')"
        and least: "\<forall>u\<in>set (st_drafts s). ?P u \<longrightarrow> t0 \<le> u"
        by blast
      from least ts ta have "t0 \<le> a" by simp
      moreover from t0(2) u have "reference_unresolved nrs0 (st_objects s ! t0)" by simp
      with inv t0(1) have "\<not> t0 < a" by blast
      ultimately have "t0 = a" by simp
      with t0(3) t ta show False by simp
    qed
  qed
qed

lemma combine_loop_unresolved_removed:
  assumes "combine_loop True [k ..< N] s = Inr s'" and "N \<le> length (st_objects s)"
    and "sorted_wrt (<) (st_drafts s)"
    and "set (st_name_requests s) \<subseteq> set nrs0"
    and "\<forall>t\<in>set (st_drafts s). t < k \<longrightarrow> \<not> reference_unresolved nrs0 (st_objects s ! t)"
  shows "\<forall>t\<in>set (st_drafts s'). t < max k N \<longrightarrow> \<not> reference_unresolved nrs0 (st_objects s' ! t)"
  using assms
proof (induction "N - k" arbitrary: k s)
  case 0
  then have "[k ..< N] = []" by simp
  with "0.prems"(1) have "s' = s" by simp
  moreover from 0 have "max k N = k" by simp
  ultimately show ?case using "0.prems"(5) by simp
next
  case (Suc d)
  then have kN: "k < N" by simp
  then have upt: "[k ..< N] = k # [Suc k ..< N]" by (simp add: upt_conv_Cons)
  with Suc.prems(1) obtain s1 where st: "combine_step True k s = Inr s1"
    and lp: "combine_loop True [Suc k ..< N] s1 = Inr s'"
    by (auto split: sum.splits)
  from kN Suc.prems(2) have a: "k < length (st_objects s)" by simp
  note sm = combine_step_summary [OF st a]
  from Suc.hyps(2) have d: "d = N - Suc k" by simp
  from sm(1) Suc.prems(2) have len: "N \<le> length (st_objects s1)" by simp
  from combine_step_drafts(2) [OF st a Suc.prems(3)] have o1: "sorted_wrt (<) (st_drafts s1)" .
  from combine_step_keys(1) [OF st a] Suc.prems(4)
  have k1: "set (st_name_requests s1) \<subseteq> set nrs0" by blast
  from combine_step_unresolved_removed [OF st a Suc.prems(3,4,5)]
  have inv1: "\<forall>t\<in>set (st_drafts s1). t < Suc k \<longrightarrow>
                \<not> reference_unresolved nrs0 (st_objects s1 ! t)" .
  from Suc.hyps(1) [OF d lp len o1 k1 inv1] kN show ?case
    by (simp add: max_def split: if_splits)
qed

lemma initial_links:
  "combine_nrs_state name_requests businesses drafts flag = Inr s \<Longrightarrow>
   combine_loop flag [0 ..< length (drafts @ businesses)]
     \<lparr> st_objects = drafts @ businesses, st_drafts = [0 ..< length drafts],
       st_name_requests = name_requests \<rparr> = Inr s"
  by (simp add: combine_nrs_state_def)

lemma combine_nrs_result:
  "combine_nrs_state name_requests businesses drafts flag = Inr s \<Longrightarrow>
   combine_nrs name_requests businesses drafts flag
     = Inr (result_name_requests s @ result_drafts s @ result_businesses (length drafts) s)"
  by (simp add: combine_nrs_def)

text \<open>The facts about the final state that the theorems below start from.\<close>

lemma combine_nrs_state_facts:
  assumes "combine_nrs_state name_requests businesses drafts flag = Inr s"
  shows "length (st_objects s) = length (drafts @ businesses)"
    and "nrNumber (st_objects s ! j) = nrNumber ((drafts @ businesses) ! j)"
    and "identifier (st_objects s ! j) = identifier ((drafts @ businesses) ! j)"
    and "set (st_name_requests s) \<subseteq> set name_requests"
    and "distinct (map fst name_requests) \<Longrightarrow> distinct (map fst (st_name_requests s))"
    and "set (st_drafts s) \<subseteq> {0 ..< length drafts}"
    and "sorted_wrt (<) (st_drafts s)"
    and "j < length (drafts @ businesses) \<Longrightarrow> truthy (nrNumber ((drafts @ businesses) ! j)) \<Longrightarrow>
         py_str (nrNumber ((drafts @ businesses) ! j)) \<notin> fst ` set (st_name_requests s)"
proof -
  let ?s0 = "\<lparr> st_objects = drafts @ businesses, st_drafts = [0 ..< length drafts],
       st_name_requests = name_requests \<rparr>"
  have r: "\<forall>a\<in>set [0 ..< length (drafts @ businesses)]. a < length (st_objects ?s0)"
    by simp
  note b = combine_loop_basic [OF initial_links [OF assms] r]
  from b show "length (st_objects s) = length (drafts @ businesses)" by simp
  from b show "nrNumber (st_objects s ! j) = nrNumber ((drafts @ businesses) ! j)" by simp
  from b show "identifier (st_objects s ! j) = identifier ((drafts @ businesses) ! j)" by simp
  from b show "set (st_name_requests s) \<subseteq> set name_requests" by simp
  from b show "distinct (map fst name_requests) \<Longrightarrow> distinct (map fst (st_name_requests s))" by simp
  from b have "set (st_drafts s) \<subseteq> set [0 ..< length drafts]" by simp
  then show "set (st_drafts s) \<subseteq> {0 ..< length drafts}" by simp
  from b have "sorted_wrt (<) [0 ..< length drafts] \<longrightarrow> sorted_wrt (<) (st_drafts s)" by simp
  then show "sorted_wrt (<) (st_drafts s)" by (simp add: sorted_wrt_upt)
  assume "j < length (drafts @ businesses)" and "truthy (nrNumber ((drafts @ businesses) ! j))"
  with b show "py_str (nrNumber ((drafts @ businesses) ! j)) \<notin> fst ` set (st_name_requests s)"
    by simp
qed

lemma result_drafts_set:
  "set (result_drafts s) = (\<lambda>t. st_objects s ! t) ` set (st_drafts s)"
  by (simp add: result_drafts_def)

lemmas ex_aff_defs = ex_business_def ex_name_request_def ex_draft_def ex_response_def
  nr_record_def CorpType_NR_def CorpType_ATMP_def NRStatus_CONSUMED_def
  NRActionCodes_AMALGAMATE_def

lemmas combine_defs = combine_affiliation_details_def group_details_def group_step_def
  extract_name_requests_def add_name_request_def combine_nrs_def combine_nrs_state_def
  combine_step_def process_nr_for_business_def update_draft_type_for_amalgamation_nr_def
  result_name_requests_def result_drafts_def result_businesses_def truthy_def py_str_def

subsection \<open>When the linking returns\<close>

text \<open>
  When the payloads are complete and the draft under way is still in the list, a round of
  the loop ends without an error, and what it removes is at or before that draft.
\<close>

lemma combine_step_returns:
  assumes a: "a < length (st_objects s)"
    and pc: "\<forall>(k, w)\<in>set (st_name_requests s). payload_complete w"
    and live: "truthy (nrNumber (st_objects s ! a)) \<longrightarrow> a \<in> set (st_drafts s)"
  shows "\<exists>s'. combine_step flag a s = Inr s'"
proof (cases "truthy (nrNumber (st_objects s ! a))")
  case False
  then show ?thesis by (simp add: combine_step_noref)
next
  case True
  then obtain n where n: "nrNumber (st_objects s ! a) = Some n" "n \<noteq> []"
    by (auto simp: truthy_def split: option.splits)
  from True live have la: "a \<in> set (st_drafts s)" by simp
  show ?thesis
  proof (cases "map_of (st_name_requests s) n")
    case None
    let ?P = "\<lambda>t. st_objects s ! t = st_objects s ! a"
    show ?thesis
    proof (cases "flag \<and> list_ex ?P (st_drafts s)")
      case True
      then obtain ds where "remove_first ?P (st_drafts s) = Some ds"
        using remove_first_exists by blast
      with True n None show ?thesis
        by (simp add: combine_step_def process_nr_for_business_def truthy_def)
    next
      case False
      with n None show ?thesis
        by (auto simp: combine_step_def process_nr_for_business_def truthy_def)
    qed
  next
    case (Some w)
    then have "(n, w) \<in> set (st_name_requests s)" by (rule map_of_SomeD)
    with pc have "payload_complete w" by blast
    then obtain nr st ac where nr: "nameRequest w = Some nr" "stateCd nr = Some st"
      "request_action_cd nr = Some ac"
      by (auto simp: payload_complete_def split: option.splits)
    let ?b0 = "(st_objects s ! a)\<lparr>nameRequest := Some nr\<rparr>"
    from nr(3) have "\<exists>b. update_draft_type_for_amalgamation_nr ?b0 = Inr b"
      by (simp add: update_draft_type_for_amalgamation_nr_def)
    then obtain b where b: "update_draft_type_for_amalgamation_nr ?b0 = Inr b" ..
    let ?P = "\<lambda>t. (st_objects s)[a := b] ! t = b"
    from a have "?P a" by simp
    with la have "list_ex ?P (st_drafts s)"
      unfolding list_ex_iff by blast
    then obtain ds where ds: "remove_first ?P (st_drafts s) = Some ds"
      using remove_first_exists by blast
    from n Some nr b ds show ?thesis
      by (simp add: combine_step_def process_nr_for_business_def truthy_def Let_def)
  qed
qed

lemma combine_step_removes_before:
  assumes st: "combine_step flag a s = Inr s'" and a: "a < length (st_objects s)"
    and o: "sorted_wrt (<) (st_drafts s)" and la: "a \<in> set (st_drafts s)"
    and j: "j \<in> set (st_drafts s)" and aj: "a < j"
  shows "j \<in> set (st_drafts s')"
proof -
  from combine_step_summary(7) [OF st a] show ?thesis
  proof
    assume "st_drafts s' = st_drafts s"
    with j show ?thesis by simp
  next
    assume rm: "remove_first (\<lambda>t. st_objects s' ! t = st_objects s' ! a) (st_drafts s)
                 = Some (st_drafts s')"
    from remove_first_least [OF rm o] obtain t0 where
      t0: "set (st_drafts s') = set (st_drafts s) - {t0}"
      and least: "\<forall>u\<in>set (st_drafts s). st_objects s' ! u = st_objects s' ! a \<longrightarrow> t0 \<le> u"
      by blast
    from least la have "t0 \<le> a" by simp
    with aj have "t0 \<noteq> j" by simp
    with t0 j show ?thesis by simp
  qed
qed

lemma combine_loop_returns:
  assumes "N \<le> length (st_objects s)"
    and "\<forall>(k, w)\<in>set (st_name_requests s). payload_complete w"
    and "sorted_wrt (<) (st_drafts s)"
    and "\<forall>j. k \<le> j \<and> j < N \<and> truthy (nrNumber (st_objects s ! j)) \<longrightarrow> j \<in> set (st_drafts s)"
  shows "\<exists>s'. combine_loop flag [k ..< N] s = Inr s'"
  using assms
proof (induction "N - k" arbitrary: k s)
  case 0
  then have "N \<le> k" by simp
  then have e: "[k ..< N] = []" by simp
  show ?case unfolding e by simp
next
  case (Suc d)
  then have kN: "k < N" by simp
  then have upt: "[k ..< N] = k # [Suc k ..< N]" by (simp add: upt_conv_Cons)
  from kN Suc.prems(1) have a: "k < length (st_objects s)" by simp
  from Suc.prems(4) kN have live: "truthy (nrNumber (st_objects s ! k)) \<longrightarrow> k \<in> set (st_drafts s)"
    by simp
  from combine_step_returns [OF a Suc.prems(2) live] obtain s1 where
    st: "combine_step flag k s = Inr s1" by blast
  note sm = combine_step_summary [OF st a]
  from Suc.hyps(2) have d: "d = N - Suc k" by simp
  from sm(1) Suc.prems(1) have len: "N \<le> length (st_objects s1)" by simp
  from combine_step_keys(1) [OF st a] Suc.prems(2)
  have pc: "\<forall>(k, w)\<in>set (st_name_requests s1). payload_complete w" by blast
  from combine_step_drafts(2) [OF st a Suc.prems(3)] have o1: "sorted_wrt (<) (st_drafts s1)" .
  have inv: "\<forall>j. Suc k \<le> j \<and> j < N \<and> truthy (nrNumber (st_objects s1 ! j))
               \<longrightarrow> j \<in> set (st_drafts s1)"
  proof (intro allI impI)
    fix j assume j: "Suc k \<le> j \<and> j < N \<and> truthy (nrNumber (st_objects s1 ! j))"
    with sm(2) [of j] have tj: "truthy (nrNumber (st_objects s ! j))" by simp
    with j Suc.prems(4) have lj: "j \<in> set (st_drafts s)" by simp
    show "j \<in> set (st_drafts s1)"
    proof (cases "truthy (nrNumber (st_objects s ! k))")
      case False
      with st have "s1 = s" by (simp add: combine_step_noref)
      with lj show ?thesis by simp
    next
      case True
      with live have lk: "k \<in> set (st_drafts s)" by simp
      from j have "k < j" by simp
      from combine_step_removes_before [OF st a Suc.prems(3) lk lj this] show ?thesis .
    qed
  qed
  from Suc.hyps(1) [OF d len pc o1 inv] obtain s' where
    "combine_loop flag [Suc k ..< N] s1 = Inr s'" by blast
  with upt st show ?case by simp
qed

text \<open>
  The linking returns a list when every name request of the mapping holds its state and
  its action, and no business carries a reference.
\<close>

lemma combine_nrs_returns:
  assumes "\<forall>(k, w)\<in>set name_requests. payload_complete w"
    and "\<forall>b\<in>set businesses. \<not> truthy (nrNumber b)"
  shows "\<exists>s. combine_nrs_state name_requests businesses drafts flag = Inr s"
proof -
  let ?s0 = "\<lparr> st_objects = drafts @ businesses, st_drafts = [0 ..< length drafts],
       st_name_requests = name_requests \<rparr>"
  let ?N = "length (drafts @ businesses)"
  have len: "?N \<le> length (st_objects ?s0)" by simp
  from assms(1) have pc: "\<forall>(k, w)\<in>set (st_name_requests ?s0). payload_complete w" by simp
  have o: "sorted_wrt (<) (st_drafts ?s0)" by (simp add: sorted_wrt_upt)
  have inv: "\<forall>j. 0 \<le> j \<and> j < ?N \<and> truthy (nrNumber (st_objects ?s0 ! j))
               \<longrightarrow> j \<in> set (st_drafts ?s0)"
  proof (intro allI impI)
    fix j assume j: "0 \<le> j \<and> j < ?N \<and> truthy (nrNumber (st_objects ?s0 ! j))"
    show "j \<in> set (st_drafts ?s0)"
    proof (rule ccontr)
      assume "j \<notin> set (st_drafts ?s0)"
      then have ge: "length drafts \<le> j" by simp
      from j have "j < length drafts + length businesses" by simp
      with ge have "j - length drafts < length businesses" by arith
      moreover from ge have "(drafts @ businesses) ! j = businesses ! (j - length drafts)"
        by (simp add: nth_append)
      ultimately have "(drafts @ businesses) ! j = businesses ! (j - length drafts)"
        and "j - length drafts < length businesses"
        by simp_all
      with assms(2) have "\<not> truthy (nrNumber ((drafts @ businesses) ! j))"
        by (metis nth_mem)
      with j show False by simp
    qed
  qed
  from combine_loop_returns [OF len pc o inv] show ?thesis
    by (simp add: combine_nrs_state_def)
qed

subsection \<open>Stale drafts\<close>

text \<open>
  A draft without a reference stays in the result although stale drafts are to be removed.
\<close>

theorem combine_nrs_keeps_draft_without_reference:
  "\<not> truthy (nrNumber (ex_draft ''T0000003'' None))
   \<and> combine_nrs [] [] [ex_draft ''T0000003'' None] True = Inr [ex_draft ''T0000003'' None]"
  by (simp add: combine_defs ex_aff_defs upt_rec)

text \<open>
  C6 (amended).  Whenever \<open>_combine_nrs\<close> returns (\<open>combine_nrs_returns\<close> gives a
  condition under which it does): a draft without a reference (no
  \<open>nrNumber\<close>, or an empty one) is among the drafts of the result, whatever
  \<open>remove_stale_drafts\<close> is; a draft whose reference is not a key of the mapping is absent
  from the drafts of the result when \<open>remove_stale_drafts\<close> is true and present when it is
  false.
\<close>

theorem combine_nrs_stale_drafts:
  assumes "combine_nrs_state name_requests businesses drafts remove_stale_drafts = Inr s"
    and "a < length drafts"
  shows "combine_nrs name_requests businesses drafts remove_stale_drafts
           = Inr (result_name_requests s @ result_drafts s
                  @ result_businesses (length drafts) s)
       \<and> (\<not> truthy (nrNumber (drafts ! a)) \<longrightarrow> drafts ! a \<in> set (result_drafts s))
       \<and> (reference_unresolved name_requests (drafts ! a) \<longrightarrow>
            (if remove_stale_drafts then drafts ! a \<notin> set (result_drafts s)
             else drafts ! a \<in> set (result_drafts s)))"
proof -
  let ?s0 = "\<lparr> st_objects = drafts @ businesses, st_drafts = [0 ..< length drafts],
       st_name_requests = name_requests \<rparr>"
  let ?N = "length (drafts @ businesses)"
  note lp = initial_links [OF assms(1)]
  have r: "\<forall>a\<in>set [0 ..< ?N]. a < length (st_objects ?s0)"
    by simp
  from assms(2) have obj: "st_objects ?s0 ! a = drafts ! a"
    by (simp add: nth_append)
  from assms(2) have live: "a \<in> set (st_drafts ?s0)"
    by simp
  have noref: "drafts ! a \<in> set (result_drafts s)" if "\<not> truthy (nrNumber (drafts ! a))"
  proof -
    from that obj have "\<not> truthy (nrNumber (st_objects ?s0 ! a))" by simp
    from combine_loop_noref_kept [OF lp r this live] obj
    have "a \<in> set (st_drafts s)" "st_objects s ! a = drafts ! a" by simp_all
    then show ?thesis unfolding result_drafts_set by force
  qed
  have kept: "drafts ! a \<in> set (result_drafts s)"
    if "reference_unresolved name_requests (drafts ! a)" and "\<not> remove_stale_drafts"
  proof -
    from that(2) lp have lp': "combine_loop False [0 ..< ?N] ?s0 = Inr s" by simp
    from that(1) obj have u: "reference_unresolved name_requests (st_objects ?s0 ! a)" by simp
    have k: "set (st_name_requests ?s0) \<subseteq> set name_requests" by simp
    from combine_loop_unresolved_kept [OF lp' r u k live] obj
    have "a \<in> set (st_drafts s)" "st_objects s ! a = drafts ! a" by simp_all
    then show ?thesis unfolding result_drafts_set by force
  qed
  have gone: "drafts ! a \<notin> set (result_drafts s)"
    if u: "reference_unresolved name_requests (drafts ! a)" and "remove_stale_drafts"
  proof
    assume "drafts ! a \<in> set (result_drafts s)"
    then obtain t where t: "t \<in> set (st_drafts s)" and eq: "st_objects s ! t = drafts ! a"
      unfolding result_drafts_set by auto
    from that(2) lp have lp': "combine_loop True [0 ..< ?N] ?s0 = Inr s" by simp
    have len: "?N \<le> length (st_objects ?s0)" by simp
    have o: "sorted_wrt (<) (st_drafts ?s0)" by (simp add: sorted_wrt_upt)
    have k: "set (st_name_requests ?s0) \<subseteq> set name_requests" by simp
    have inv: "\<forall>t\<in>set (st_drafts ?s0). t < 0 \<longrightarrow>
                 \<not> reference_unresolved name_requests (st_objects ?s0 ! t)" by simp
    from combine_loop_unresolved_removed [OF lp' len o k inv]
    have all: "\<forall>t\<in>set (st_drafts s). t < ?N \<longrightarrow>
                 \<not> reference_unresolved name_requests (st_objects s ! t)" by simp
    from combine_nrs_state_facts(6) [OF assms(1)] t have "t < ?N" by auto
    with all t have "\<not> reference_unresolved name_requests (st_objects s ! t)" by blast
    with eq u show False by simp
  qed
  from combine_nrs_result [OF assms(1)] noref kept gone show ?thesis
    by auto
qed

theorem combine_nrs_stale_drafts_witness:
  "combine_nrs_state [(''NR 1'', nr_record (ex_name_request ''NR 1'' ''APPROVED''))] []
       [ex_draft ''T0000003'' None, ex_draft ''T0000004'' (Some ''NR 9'')] True
     = Inr \<lparr> st_objects = [ex_draft ''T0000003'' None, ex_draft ''T0000004'' (Some ''NR 9'')],
             st_drafts = [0],
             st_name_requests = [(''NR 1'', nr_record (ex_name_request ''NR 1'' ''APPROVED''))] \<rparr>
   \<and> combine_nrs_state [(''NR 1'', nr_record (ex_name_request ''NR 1'' ''APPROVED''))] []
       [ex_draft ''T0000003'' None, ex_draft ''T0000004'' (Some ''NR 9'')] False
     = Inr \<lparr> st_objects = [ex_draft ''T0000003'' None, ex_draft ''T0000004'' (Some ''NR 9'')],
             st_drafts = [0, 1],
             st_name_requests = [(''NR 1'', nr_record (ex_name_request ''NR 1'' ''APPROVED''))] \<rparr>
   \<and> reference_unresolved [(''NR 1'', nr_record (ex_name_request ''NR 1'' ''APPROVED''))]
         (ex_draft ''T0000004'' (Some ''NR 9''))
   \<and> ex_draft ''T0000004'' (Some ''NR 9'')
       \<notin> set (result_drafts
           \<lparr> st_objects = [ex_draft ''T0000003'' None, ex_draft ''T0000004'' (Some ''NR 9'')],
             st_drafts = [0],
             st_name_requests = [(''NR 1'', nr_record (ex_name_request ''NR 1'' ''APPROVED''))] \<rparr>)
   \<and> ex_draft ''T0000004'' (Some ''NR 9'')
       \<in> set (result_drafts
           \<lparr> st_objects = [ex_draft ''T0000003'' None, ex_draft ''T0000004'' (Some ''NR 9'')],
             st_drafts = [0, 1],
             st_name_requests = [(''NR 1'', nr_record (ex_name_request ''NR 1'' ''APPROVED''))] \<rparr>)
   \<and> combine_nrs [(''NR 1'', nr_record (ex_name_request ''NR 1'' ''APPROVED''))] []
       [ex_draft ''T0000003'' None, ex_draft ''T0000004'' (Some ''NR 9'')] True
     = Inr [nr_record (ex_name_request ''NR 1'' ''APPROVED''), ex_draft ''T0000003'' None]
   \<and> combine_nrs [(''NR 1'', nr_record (ex_name_request ''NR 1'' ''APPROVED''))] []
       [ex_draft ''T0000003'' None, ex_draft ''T0000004'' (Some ''NR 9'')] False
     = Inr [nr_record (ex_name_request ''NR 1'' ''APPROVED''), ex_draft ''T0000003'' None,
            ex_draft ''T0000004'' (Some ''NR 9'')]"
proof -
  let ?nrs = "[(''NR 1'', nr_record (ex_name_request ''NR 1'' ''APPROVED''))]"
  let ?ds = "[ex_draft ''T0000003'' None, ex_draft ''T0000004'' (Some ''NR 9'')]"
  let ?sT = "\<lparr> st_objects = ?ds, st_drafts = [0], st_name_requests = ?nrs \<rparr>"
  let ?sF = "\<lparr> st_objects = ?ds, st_drafts = [0, 1], st_name_requests = ?nrs \<rparr>"
  have hT: "combine_nrs_state ?nrs [] ?ds True = Inr ?sT"
    by (simp add: combine_defs ex_aff_defs upt_rec)
  have hF: "combine_nrs_state ?nrs [] ?ds False = Inr ?sF"
    by (simp add: combine_defs ex_aff_defs upt_rec)
  have l: "(1::nat) < length ?ds"
    by simp
  have u: "reference_unresolved ?nrs (ex_draft ''T0000004'' (Some ''NR 9''))"
    by (simp add: reference_unresolved_def truthy_def py_str_def ex_draft_def)
  have rT: "result_name_requests ?sT @ result_drafts ?sT @ result_businesses (length ?ds) ?sT
              = [nr_record (ex_name_request ''NR 1'' ''APPROVED''), ex_draft ''T0000003'' None]"
    by (simp add: result_name_requests_def result_drafts_def result_businesses_def)
  have rF: "result_name_requests ?sF @ result_drafts ?sF @ result_businesses (length ?ds) ?sF
              = [nr_record (ex_name_request ''NR 1'' ''APPROVED''), ex_draft ''T0000003'' None,
                 ex_draft ''T0000004'' (Some ''NR 9'')]"
    by (simp add: result_name_requests_def result_drafts_def result_businesses_def)
  from combine_nrs_stale_drafts [OF hT l] combine_nrs_stale_drafts [OF hF l] hT hF u rT rF
  show ?thesis
    by simp
qed

subsection \<open>Identifiers of the combined result\<close>

lemma update_set_subset: "set (AList.update k v al) \<subseteq> insert (k, v) (set al)"
  by (induction al) auto

lemma add_name_request_keyed:
  assumes "keyed_by_number nrs"
  shows "keyed_by_number (add_name_request nr nrs)"
proof (cases "nrNum nr")
  case None
  with assms show ?thesis by (simp add: add_name_request_def)
next
  case (Some n)
  have "item_identifier (nr_record nr) = n"
    using Some by (simp add: item_identifier_def nr_record_def)
  with assms update_set_subset [of n "nr_record nr" nrs] Some show ?thesis
    unfolding keyed_by_number_def add_name_request_def
    by (auto simp: distinct_update)
qed

lemma fold_add_name_request_keyed:
  "keyed_by_number nrs \<Longrightarrow> keyed_by_number (fold add_name_request l nrs)"
  by (induction l arbitrary: nrs) (simp_all add: add_name_request_keyed)

lemma fold_group_step_keyed:
  "keyed_by_number (fst acc) \<Longrightarrow> keyed_by_number (fst (fold group_step details acc))"
proof (induction details arbitrary: acc)
  case Nil
  then show ?case by simp
next
  case (Cons d details)
  obtain nrs bs ds where acc: "acc = (nrs, bs, ds)" by (cases acc)
  with Cons.prems have "keyed_by_number (fst (group_step d acc))"
    by (simp add: group_step_def fold_add_name_request_keyed)
  from Cons.IH [OF this] show ?case by simp
qed

lemma group_details_keyed:
  "group_details details = (name_requests, businesses, drafts) \<Longrightarrow> keyed_by_number name_requests"
  using fold_group_step_keyed [of "([], [], [])" details]
  by (simp add: group_details_def keyed_by_number_def)

lemma keyed_identifiers:
  assumes "keyed_by_number nrs0" and "set nrs \<subseteq> set nrs0"
  shows "map item_identifier (map snd nrs) = map fst nrs"
proof -
  have "item_identifier (snd p) = fst p" if "p \<in> set nrs" for p
  proof -
    from that assms(2) have "p \<in> set nrs0" by blast
    with assms(1) show ?thesis
      by (cases p) (auto simp: keyed_by_number_def)
  qed
  then show ?thesis by simp
qed

lemma drop_as_nth: "drop n xs = map ((!) xs) [n ..< length xs]"
  by (rule nth_equalityI) simp_all

lemma result_businesses_set:
  "set (result_businesses n s) = (\<lambda>t. st_objects s ! t) ` {n ..< length (st_objects s)}"
  unfolding result_businesses_def by (subst drop_as_nth) simp

lemma distinct_map_inj_nth:
  assumes "distinct (map f xs)"
  shows "inj_on (\<lambda>t. f (xs ! t)) {0 ..< length xs}"
proof (rule inj_onI)
  fix x y assume x: "x \<in> {0 ..< length xs}" and y: "y \<in> {0 ..< length xs}"
    and eq: "f (xs ! x) = f (xs ! y)"
  from x y have lx: "x < length (map f xs)" and ly: "y < length (map f xs)" by simp_all
  from x y eq have "map f xs ! x = map f xs ! y" by simp
  with nth_eq_iff_index_eq [OF assms lx ly] show "x = y"
    by blast
qed

lemma item_identifier_eq:
  "identifier b = identifier b' \<Longrightarrow> identifier b' \<noteq> None \<Longrightarrow> item_identifier b = item_identifier b'"
  by (auto simp: item_identifier_def)

text \<open>
  Two responses that return the same business: its identifier appears twice in the result.
\<close>

theorem combine_affiliation_details_keeps_duplicates:
  "combine_affiliation_details
     [ex_response [] [ex_business ''BC0000001''] [],
      ex_response [] [ex_business ''BC0000001''] []] True
     = Inr [ex_business ''BC0000001'', ex_business ''BC0000001'']
   \<and> \<not> distinct (map item_identifier [ex_business ''BC0000001'', ex_business ''BC0000001''])"
  by (simp add: combine_defs ex_aff_defs upt_rec)

text \<open>
  C5 (amended).  Whenever \<open>_combine_affiliation_details\<close> returns (\<open>combine_nrs_returns\<close>
  gives a condition under which it does): the name requests that
  stand alone in the result have pairwise distinct numbers; no draft or business of the
  responses, whether it is kept in the result or discarded as the draft of a consumed name
  request or as a stale draft, carries a reference to a name request that stands alone in
  the result, and neither does a record of the result; and when the drafts and
  businesses of the responses all have an identifier, pairwise distinct and different from
  every name request number, no identifier appears twice in the result.
\<close>

theorem combine_affiliation_details_identifiers:
  assumes g: "group_details details = (name_requests, businesses, drafts)"
    and c: "combine_nrs_state name_requests businesses drafts remove_stale_drafts = Inr s"
  shows "combine_affiliation_details details remove_stale_drafts
           = Inr (result_name_requests s @ result_drafts s
                  @ result_businesses (length drafts) s)
       \<and> distinct (map item_identifier (result_name_requests s))
       \<and> (\<forall>b\<in>set (drafts @ businesses).
             truthy (nrNumber b) \<longrightarrow>
             py_str (nrNumber b) \<notin> item_identifier ` set (result_name_requests s))
       \<and> (\<forall>b\<in>set (result_drafts s @ result_businesses (length drafts) s).
             truthy (nrNumber b) \<longrightarrow>
             py_str (nrNumber b) \<notin> item_identifier ` set (result_name_requests s))
       \<and> ((\<forall>b\<in>set (drafts @ businesses). identifier b \<noteq> None)
            \<and> distinct (map item_identifier (drafts @ businesses))
            \<and> (\<forall>b\<in>set (drafts @ businesses). item_identifier b \<notin> fst ` set name_requests)
          \<longrightarrow> distinct (map item_identifier
                 (result_name_requests s @ result_drafts s
                  @ result_businesses (length drafts) s)))"
proof -
  let ?objs0 = "drafts @ businesses"
  let ?N = "length ?objs0"
  note f = combine_nrs_state_facts [OF c]
  note kd = group_details_keyed [OF g]
  have ids: "map item_identifier (result_name_requests s) = map fst (st_name_requests s)"
    unfolding result_name_requests_def using keyed_identifiers [OF kd f(4)] .
  from kd have "distinct (map fst name_requests)" by (simp add: keyed_by_number_def)
  from f(5) [OF this] have dk: "distinct (map fst (st_name_requests s))" .
  have res: "combine_affiliation_details details remove_stale_drafts
           = Inr (result_name_requests s @ result_drafts s
                  @ result_businesses (length drafts) s)"
    using g combine_nrs_result [OF c] by (simp add: combine_affiliation_details_def)
  have d1: "distinct (map item_identifier (result_name_requests s))"
    using ids dk by simp
  have addr: "\<exists>t < ?N. b = st_objects s ! t"
    if "b \<in> set (result_drafts s @ result_businesses (length drafts) s)" for b
  proof -
    from that consider "b \<in> set (result_drafts s)" | "b \<in> set (result_businesses (length drafts) s)"
      by auto
    then show ?thesis
    proof cases
      case 1
      then obtain t where t: "t \<in> set (st_drafts s)" "b = st_objects s ! t"
        unfolding result_drafts_set by auto
      from t(1) f(6) have "t < ?N" by auto
      with t(2) show ?thesis by blast
    next
      case 2
      then obtain t where "t < length (st_objects s)" "b = st_objects s ! t"
        unfolding result_businesses_set by auto
      with f(1) show ?thesis by auto
    qed
  qed
  have d0: "\<forall>b\<in>set ?objs0.
             truthy (nrNumber b) \<longrightarrow>
             py_str (nrNumber b) \<notin> item_identifier ` set (result_name_requests s)"
  proof (intro ballI impI)
    fix b assume b: "b \<in> set ?objs0" and tr: "truthy (nrNumber b)"
    from b obtain t where t: "t < ?N" "b = ?objs0 ! t"
      unfolding in_set_conv_nth by blast
    with tr f(8) [OF t(1)] have "py_str (nrNumber b) \<notin> fst ` set (st_name_requests s)"
      by simp
    moreover have "item_identifier ` set (result_name_requests s) = fst ` set (st_name_requests s)"
      using ids by (metis list.set_map)
    ultimately show "py_str (nrNumber b) \<notin> item_identifier ` set (result_name_requests s)"
      by simp
  qed
  have d2: "\<forall>b\<in>set (result_drafts s @ result_businesses (length drafts) s).
             truthy (nrNumber b) \<longrightarrow>
             py_str (nrNumber b) \<notin> item_identifier ` set (result_name_requests s)"
  proof (intro ballI impI)
    fix b assume b: "b \<in> set (result_drafts s @ result_businesses (length drafts) s)"
      and tr: "truthy (nrNumber b)"
    from addr [OF b] obtain t where t: "t < ?N" "b = st_objects s ! t" by blast
    from t(2) f(2) [of t] have nb: "nrNumber b = nrNumber (?objs0 ! t)" by simp
    with tr f(8) [OF t(1)] have "py_str (nrNumber b) \<notin> fst ` set (st_name_requests s)"
      by simp
    moreover have "item_identifier ` set (result_name_requests s) = fst ` set (st_name_requests s)"
      using ids by (metis list.set_map)
    ultimately show "py_str (nrNumber b) \<notin> item_identifier ` set (result_name_requests s)"
      by simp
  qed
  have d3: "distinct (map item_identifier
                 (result_name_requests s @ result_drafts s
                  @ result_businesses (length drafts) s))"
    if has: "\<forall>b\<in>set ?objs0. identifier b \<noteq> None"
      and dis: "distinct (map item_identifier ?objs0)"
      and sep: "\<forall>b\<in>set ?objs0. item_identifier b \<notin> fst ` set name_requests"
  proof -
    let ?id0 = "\<lambda>t. item_identifier (?objs0 ! t)"
    let ?ts = "st_drafts s @ [length drafts ..< ?N]"
    have same: "item_identifier (st_objects s ! t) = ?id0 t" if "t < ?N" for t
    proof -
      from that have "?objs0 ! t \<in> set ?objs0" by (rule nth_mem)
      with has have "identifier (?objs0 ! t) \<noteq> None" by blast
      with f(3) [of t] show ?thesis by (rule item_identifier_eq)
    qed
    have ts_lt: "\<forall>t\<in>set ?ts. t < ?N"
      using f(6) by auto
    have rest: "result_drafts s @ result_businesses (length drafts) s
                  = map (\<lambda>t. st_objects s ! t) ?ts"
      unfolding result_drafts_def result_businesses_def
      using drop_as_nth [of "length drafts" "st_objects s"] f(1) by simp
    have rest_ids: "map item_identifier (result_drafts s @ result_businesses (length drafts) s)
                  = map ?id0 ?ts"
      unfolding rest using ts_lt same by simp
    from f(7) have "distinct (st_drafts s)"
      by (simp add: strict_sorted_iff)
    with f(6) have dts: "distinct ?ts" by auto
    from dis have inj: "inj_on ?id0 {0 ..< ?N}"
      by (rule distinct_map_inj_nth)
    from ts_lt have "set ?ts \<subseteq> {0 ..< ?N}" by auto
    with inj have "inj_on ?id0 (set ?ts)" by (rule inj_on_subset)
    with dts have drest: "distinct (map ?id0 ?ts)"
      unfolding distinct_map by blast
    have away: "?id0 t \<notin> fst ` set (st_name_requests s)" if "t \<in> set ?ts" for t
    proof -
      from that ts_lt have "?objs0 ! t \<in> set ?objs0" by (metis nth_mem)
      with sep have "?id0 t \<notin> fst ` set name_requests" by blast
      with f(4) show ?thesis by auto
    qed
    have disj: "set (map fst (st_name_requests s)) \<inter> set (map ?id0 ?ts) = {}"
    proof (rule equals0I)
      fix x assume "x \<in> set (map fst (st_name_requests s)) \<inter> set (map ?id0 ?ts)"
      then have x1: "x \<in> fst ` set (st_name_requests s)" and x2: "x \<in> ?id0 ` set ?ts"
        by (simp_all only: set_map Int_iff)
      from x2 obtain t where "t \<in> set ?ts" "x = ?id0 t" by (rule imageE)
      with away [of t] x1 show False by simp
    qed
    have "map item_identifier (result_name_requests s @ result_drafts s
                  @ result_businesses (length drafts) s)
          = map fst (st_name_requests s) @ map ?id0 ?ts"
      using ids rest_ids by simp
    with dk drest disj show ?thesis by simp
  qed
  from res d1 d0 d2 d3 show ?thesis by blast
qed

theorem combine_affiliation_details_identifiers_witness:
  "group_details
     [ex_response [ex_name_request ''NR 1'' ''CONSUMED'', ex_name_request ''NR 2'' ''APPROVED'',
                   ex_name_request ''NR 3'' ''APPROVED'']
        [ex_business ''BC0000001'']
        [ex_draft ''T0000003'' (Some ''NR 1''), ex_draft ''T0000004'' (Some ''NR 2'')]]
     = ([(''NR 1'', nr_record (ex_name_request ''NR 1'' ''CONSUMED'')),
         (''NR 2'', nr_record (ex_name_request ''NR 2'' ''APPROVED'')),
         (''NR 3'', nr_record (ex_name_request ''NR 3'' ''APPROVED''))],
        [ex_business ''BC0000001''],
        [ex_draft ''T0000003'' (Some ''NR 1''), ex_draft ''T0000004'' (Some ''NR 2'')])
   \<and> combine_affiliation_details
     [ex_response [ex_name_request ''NR 1'' ''CONSUMED'', ex_name_request ''NR 2'' ''APPROVED'',
                   ex_name_request ''NR 3'' ''APPROVED'']
        [ex_business ''BC0000001'']
        [ex_draft ''T0000003'' (Some ''NR 1''), ex_draft ''T0000004'' (Some ''NR 2'')]] True
     = Inr [nr_record (ex_name_request ''NR 3'' ''APPROVED''),
            (ex_draft ''T0000004'' (Some ''NR 2''))
              \<lparr> nameRequest := Some (ex_name_request ''NR 2'' ''APPROVED'') \<rparr>,
            ex_business ''BC0000001'']
   \<and> distinct (map item_identifier
        [nr_record (ex_name_request ''NR 3'' ''APPROVED''),
         (ex_draft ''T0000004'' (Some ''NR 2''))
           \<lparr> nameRequest := Some (ex_name_request ''NR 2'' ''APPROVED'') \<rparr>,
         ex_business ''BC0000001''])
   \<and> truthy (nrNumber (ex_draft ''T0000003'' (Some ''NR 1'')))
   \<and> py_str (nrNumber (ex_draft ''T0000003'' (Some ''NR 1'')))
       \<notin> item_identifier ` set [nr_record (ex_name_request ''NR 3'' ''APPROVED'')]"
proof -
  let ?details = "[ex_response [ex_name_request ''NR 1'' ''CONSUMED'',
                     ex_name_request ''NR 2'' ''APPROVED'', ex_name_request ''NR 3'' ''APPROVED'']
        [ex_business ''BC0000001'']
        [ex_draft ''T0000003'' (Some ''NR 1''), ex_draft ''T0000004'' (Some ''NR 2'')]]"
  let ?nrs = "[(''NR 1'', nr_record (ex_name_request ''NR 1'' ''CONSUMED'')),
         (''NR 2'', nr_record (ex_name_request ''NR 2'' ''APPROVED'')),
         (''NR 3'', nr_record (ex_name_request ''NR 3'' ''APPROVED''))]"
  let ?bs = "[ex_business ''BC0000001'']"
  let ?ds = "[ex_draft ''T0000003'' (Some ''NR 1''), ex_draft ''T0000004'' (Some ''NR 2'')]"
  let ?s = "\<lparr> st_objects =
               [(ex_draft ''T0000003'' (Some ''NR 1''))
                  \<lparr> nameRequest := Some (ex_name_request ''NR 1'' ''CONSUMED'') \<rparr>,
                (ex_draft ''T0000004'' (Some ''NR 2''))
                  \<lparr> nameRequest := Some (ex_name_request ''NR 2'' ''APPROVED'') \<rparr>,
                ex_business ''BC0000001''],
             st_drafts = [1],
             st_name_requests = [(''NR 3'', nr_record (ex_name_request ''NR 3'' ''APPROVED''))] \<rparr>"
  have g: "group_details ?details = (?nrs, ?bs, ?ds)"
    by (simp add: combine_defs ex_aff_defs)
  have c: "combine_nrs_state ?nrs ?bs ?ds True = Inr ?s"
    by (simp add: combine_defs ex_aff_defs upt_rec)
  have h: "(\<forall>b\<in>set (?ds @ ?bs). identifier b \<noteq> None)
            \<and> distinct (map item_identifier (?ds @ ?bs))
            \<and> (\<forall>b\<in>set (?ds @ ?bs). item_identifier b \<notin> fst ` set ?nrs)"
    by (simp add: item_identifier_def ex_aff_defs)
  have r: "result_name_requests ?s @ result_drafts ?s @ result_businesses (length ?ds) ?s
             = [nr_record (ex_name_request ''NR 3'' ''APPROVED''),
                (ex_draft ''T0000004'' (Some ''NR 2''))
                  \<lparr> nameRequest := Some (ex_name_request ''NR 2'' ''APPROVED'') \<rparr>,
                ex_business ''BC0000001'']"
    by (simp add: result_name_requests_def result_drafts_def result_businesses_def)
  have m: "ex_draft ''T0000003'' (Some ''NR 1'') \<in> set (?ds @ ?bs)"
    and t: "truthy (nrNumber (ex_draft ''T0000003'' (Some ''NR 1'')))"
    by (simp_all add: truthy_def ex_aff_defs)
  have n: "result_name_requests ?s = [nr_record (ex_name_request ''NR 3'' ''APPROVED'')]"
    by (simp add: result_name_requests_def)
  from combine_affiliation_details_identifiers [OF g c] h m t
  have "combine_affiliation_details ?details True
           = Inr (result_name_requests ?s @ result_drafts ?s
                  @ result_businesses (length ?ds) ?s)"
    and "distinct (map item_identifier
                 (result_name_requests ?s @ result_drafts ?s
                  @ result_businesses (length ?ds) ?s))"
    and "py_str (nrNumber (ex_draft ''T0000003'' (Some ''NR 1'')))
           \<notin> item_identifier ` set (result_name_requests ?s)"
    by blast+
  with g r t show ?thesis
    unfolding n by simp
qed

subsection \<open>Consumed name requests\<close>

lemma combine_loop_append:
  "combine_loop flag (xs @ ys) s =
     (case combine_loop flag xs s of Inl e \<Rightarrow> Inl e | Inr s1 \<Rightarrow> combine_loop flag ys s1)"
  by (induction xs arbitrary: s) (auto split: sum.splits)

text \<open>Records with other numbers leave the entry of a number and the drafts that carry it alone.\<close>

lemma combine_step_other_number:
  assumes st: "combine_step flag j s = Inr s'" and j: "j < length (st_objects s)"
    and ne: "nrNumber (st_objects s ! j) \<noteq> Some n"
  shows "map_of (st_name_requests s') n = map_of (st_name_requests s) n"
    and "nrNumber (st_objects s ! a) = Some n \<Longrightarrow> a \<in> set (st_drafts s) \<Longrightarrow>
         a \<in> set (st_drafts s') \<and> st_objects s' ! a = st_objects s ! a"
proof -
  note sm = combine_step_summary [OF st j]
  show "map_of (st_name_requests s') n = map_of (st_name_requests s) n"
  proof (cases "truthy (nrNumber (st_objects s ! j))")
    case False
    with st have "s' = s" by (simp add: combine_step_noref)
    then show ?thesis by simp
  next
    case True
    then obtain m where m: "nrNumber (st_objects s ! j) = Some m" "m \<noteq> []"
      by (auto simp: truthy_def split: option.splits)
    with ne have mn: "m \<noteq> n" by simp
    show ?thesis
    proof (cases "map_of (st_name_requests s) m")
      case None
      from combine_step_unresolved [OF st m None] show ?thesis by simp
    next
      case (Some w)
      from combine_step_resolved [OF st m Some j]
      have "st_name_requests s' = AList.delete m (st_name_requests s)" by blast
      with mn show ?thesis by (simp add: delete_conv')
    qed
  qed
  assume a: "nrNumber (st_objects s ! a) = Some n" and live: "a \<in> set (st_drafts s)"
  from a ne have aj: "a \<noteq> j" by auto
  from sm(4) [OF aj] have o: "st_objects s' ! a = st_objects s ! a" .
  from sm(7) have "a \<in> set (st_drafts s')"
  proof
    assume "st_drafts s' = st_drafts s"
    with live show ?thesis by simp
  next
    assume "remove_first (\<lambda>t. st_objects s' ! t = st_objects s' ! j) (st_drafts s)
              = Some (st_drafts s')"
    from remove_first_split [OF this] obtain pre t post where
      xs: "st_drafts s = pre @ t # post" and t: "st_objects s' ! t = st_objects s' ! j"
      and ys: "st_drafts s' = pre @ post"
      by blast
    from t have "nrNumber (st_objects s' ! t) = nrNumber (st_objects s' ! j)" by simp
    with sm(2) have "nrNumber (st_objects s ! t) = nrNumber (st_objects s ! j)" by simp
    with a ne have "t \<noteq> a" by auto
    with xs ys live show ?thesis by auto
  qed
  with o show "a \<in> set (st_drafts s') \<and> st_objects s' ! a = st_objects s ! a" by simp
qed

lemma combine_loop_other_numbers:
  assumes "combine_loop flag as s = Inr s'" and "\<forall>j\<in>set as. j < length (st_objects s)"
    and "\<forall>j\<in>set as. nrNumber (st_objects s ! j) \<noteq> Some n"
    and "nrNumber (st_objects s ! a) = Some n" and "a \<in> set (st_drafts s)"
  shows "map_of (st_name_requests s') n = map_of (st_name_requests s) n
       \<and> a \<in> set (st_drafts s') \<and> st_objects s' ! a = st_objects s ! a"
  using assms
proof (induction as arbitrary: s)
  case Nil
  then show ?case by simp
next
  case (Cons j as)
  from Cons.prems(1) obtain s1 where st: "combine_step flag j s = Inr s1"
    and lp: "combine_loop flag as s1 = Inr s'"
    by (auto split: sum.splits)
  from Cons.prems(2) have j: "j < length (st_objects s)" by simp
  from Cons.prems(3) have ne: "nrNumber (st_objects s ! j) \<noteq> Some n" by simp
  note sm = combine_step_summary [OF st j]
  note on = combine_step_other_number [OF st j ne]
  from on(2) [OF Cons.prems(4,5)]
  have live1: "a \<in> set (st_drafts s1)" and o1: "st_objects s1 ! a = st_objects s ! a"
    by simp_all
  from sm(1) Cons.prems(2) have as: "\<forall>j\<in>set as. j < length (st_objects s1)" by simp
  from sm(2) Cons.prems(3) have ne1: "\<forall>j\<in>set as. nrNumber (st_objects s1 ! j) \<noteq> Some n"
    by simp
  from o1 Cons.prems(4) have a1: "nrNumber (st_objects s1 ! a) = Some n" by simp
  from Cons.IH [OF lp as ne1 a1 live1] on(1) o1 show ?case by simp
qed

text \<open>
  The first draft that carries a reference to a consumed name request is removed, and
  every business is passed on with its identifier and its reference.
\<close>

lemma combine_nrs_consumed_reference:
  assumes c: "combine_nrs_state name_requests businesses drafts flag = Inr s"
    and a: "a < length drafts"
    and n: "nrNumber (drafts ! a) = Some n" "n \<noteq> []"
    and w: "map_of name_requests n = Some w" "nameRequest w = Some nr"
      "stateCd nr = Some NRStatus_CONSUMED"
    and first: "\<forall>j<a. nrNumber (drafts ! j) \<noteq> Some n"
  shows "a \<notin> set (st_drafts s)"
    and "length (result_businesses (length drafts) s) = length businesses"
    and "i < length businesses \<Longrightarrow>
         identifier (result_businesses (length drafts) s ! i) = identifier (businesses ! i)
         \<and> nrNumber (result_businesses (length drafts) s ! i) = nrNumber (businesses ! i)"
proof -
  let ?objs0 = "drafts @ businesses"
  let ?N = "length ?objs0"
  let ?s0 = "\<lparr> st_objects = ?objs0, st_drafts = [0 ..< length drafts],
       st_name_requests = name_requests \<rparr>"
  note f = combine_nrs_state_facts [OF c]
  from a have aN: "a < ?N" by simp
  then have "[0 ..< ?N] = [0 ..< a] @ [a ..< ?N]"
    using upt_add_eq_append [of 0 a "?N - a"] by simp
  with aN have "[0 ..< ?N] = [0 ..< a] @ a # [Suc a ..< ?N]"
    by (simp add: upt_conv_Cons)
  with initial_links [OF c] obtain s1 s2 where
    l1: "combine_loop flag [0 ..< a] ?s0 = Inr s1"
    and st: "combine_step flag a s1 = Inr s2"
    and l2: "combine_loop flag [Suc a ..< ?N] s2 = Inr s"
    by (auto simp: combine_loop_append split: sum.splits)
  have r1: "\<forall>j\<in>set [0 ..< a]. j < length (st_objects ?s0)"
    using a by simp
  have ne1: "\<forall>j\<in>set [0 ..< a]. nrNumber (st_objects ?s0 ! j) \<noteq> Some n"
    using first a by (simp add: nth_append)
  have a0: "nrNumber (st_objects ?s0 ! a) = Some n" "a \<in> set (st_drafts ?s0)"
    using a n by (simp_all add: nth_append)
  from combine_loop_other_numbers [OF l1 r1 ne1 a0]
  have m1: "map_of (st_name_requests s1) n = Some w" and live1: "a \<in> set (st_drafts s1)"
    and o1: "st_objects s1 ! a = drafts ! a"
    using w(1) a by (simp_all add: nth_append)
  note b1 = combine_loop_basic [OF l1 r1]
  from b1 have len1: "length (st_objects s1) = ?N" by simp
  from b1 have sorted1: "sorted_wrt (<) (st_drafts s1)" by (simp add: sorted_wrt_upt)
  from b1 have sub1: "set (st_drafts s1) \<subseteq> {0 ..< length drafts}" by auto
  from b1 have nr1: "\<And>j. nrNumber (st_objects s1 ! j) = nrNumber (?objs0 ! j)" by simp
  from len1 aN have a1: "a < length (st_objects s1)" by simp
  from o1 n have n1: "nrNumber (st_objects s1 ! a) = Some n" by simp
  note sm = combine_step_summary [OF st a1]
  have gone2: "a \<notin> set (st_drafts s2)"
  proof -
    from st n1 n(2) obtain pr s' where p: "process_nr_for_business a s1 = Inr (pr, s')"
      by (auto simp: combine_step_def truthy_def split: sum.splits)
    from process_resolved [OF p n1 m1 a1] have pr: pr by blast
    with st n1 n(2) p have s': "s' = s2" by (simp add: combine_step_def truthy_def)
    from p n1 m1 w(2,3) obtain b ds where
      b: "update_draft_type_for_amalgamation_nr ((st_objects s1 ! a)\<lparr>nameRequest := Some nr\<rparr>) = Inr b"
      and ds: "remove_first (\<lambda>t. (st_objects s1)[a := b] ! t = b) (st_drafts s1) = Some ds"
      and s2: "s' = \<lparr> st_objects = (st_objects s1)[a := b], st_drafts = ds,
                     st_name_requests = AList.delete n (st_name_requests s1) \<rparr>"
      by (auto simp: process_nr_for_business_def Let_def split: option.splits sum.splits)
    let ?P = "\<lambda>t. (st_objects s1)[a := b] ! t = b"
    from a1 have Pa: "?P a" by simp
    from remove_first_least [OF ds sorted1] obtain t0 where
      t0: "t0 \<in> set (st_drafts s1)" "?P t0" "t0 \<notin> set ds"
      and least: "\<forall>u\<in>set (st_drafts s1). ?P u \<longrightarrow> t0 \<le> u"
      by blast
    from least live1 Pa have le: "t0 \<le> a" by blast
    have "t0 = a"
    proof (rule ccontr)
      assume "t0 \<noteq> a"
      with le have lt: "t0 < a" by simp
      with t0(2) have "st_objects s1 ! t0 = b" by simp
      then have "nrNumber (st_objects s1 ! t0) = nrNumber b" by simp
      also from update_draft_type_keeps [OF b] n1 have "nrNumber b = Some n" by simp
      finally have "nrNumber (?objs0 ! t0) = Some n" using nr1 by simp
      with lt a have "nrNumber (drafts ! t0) = Some n" by (simp add: nth_append)
      with first lt show False by simp
    qed
    with t0(3) s2 s' show ?thesis by auto
  qed
  from sm(1) len1 have r2: "\<forall>j\<in>set [Suc a ..< ?N]. j < length (st_objects s2)" by simp
  from combine_loop_basic [OF l2 r2] have "set (st_drafts s) \<subseteq> set (st_drafts s2)" by blast
  with gone2 show "a \<notin> set (st_drafts s)" by blast
  from f(1) show len: "length (result_businesses (length drafts) s) = length businesses"
    by (simp add: result_businesses_def)
  assume i: "i < length businesses"
  with f(1) have "result_businesses (length drafts) s ! i = st_objects s ! (length drafts + i)"
    by (simp add: result_businesses_def)
  with f(2) [of "length drafts + i"] f(3) [of "length drafts + i"]
  show "identifier (result_businesses (length drafts) s ! i) = identifier (businesses ! i)
         \<and> nrNumber (result_businesses (length drafts) s ! i) = nrNumber (businesses ! i)"
    by simp
qed

text \<open>
  C4.  When a draft and a business carry the same reference to a consumed name request, the
  draft is dropped and the business is kept (third equation; \<open>combine_nrs_consumed_reference\<close>
  is the general fact).  When only a business carries the reference,
  \<open>_process_nr_for_business\<close> asks the list of drafts to remove the business, which the list
  does not hold, and the call ends in \<open>ValueError\<close> instead of a result (first and second
  equation).
\<close>

theorem combine_nrs_business_with_consumed_reference:
  "combine_affiliation_details
     [ex_response [ex_name_request ''NR 1'' ''CONSUMED'']
        [ex_linked_business ''BC0000001'' ''NR 1''] []] True
     = Inl ValueError
   \<and> combine_affiliation_details
     [ex_response [ex_name_request ''NR 1'' ''CONSUMED'']
        [ex_linked_business ''BC0000001'' ''NR 1''] []] False
     = Inl ValueError
   \<and> combine_affiliation_details
     [ex_response [ex_name_request ''NR 1'' ''CONSUMED'']
        [ex_linked_business ''BC0000001'' ''NR 1''] [ex_draft ''T0000003'' (Some ''NR 1'')]] True
     = Inr [ex_linked_business ''BC0000001'' ''NR 1'']"
  by (simp add: combine_defs ex_aff_defs ex_linked_business_def upt_rec)

section \<open>Properties of the authorization of an affiliation\<close>

text \<open>
  C8.  For a caller without a bypass role and an entity that is neither a proprietorship
  nor a partnership, a supplied (non-empty) passcode authorizes exactly when
  \<open>validate_passcode\<close> accepts it against the stored passcode, and it never does when
  the stored passcode is absent or empty.
\<close>

theorem is_authorized_passcode:
  assumes "\<not> has_role_to_skip_auth ev ctx"
    and "corp_type ent \<notin> {''SP'', ''GP''}"
    and "p \<noteq> []"
  shows "is_authorized ev ctx ent (Some p) = Inr (validate_passcode ev p (pass_code ent))
       \<and> (pass_code ent = None \<or> pass_code ent = Some [] \<longrightarrow>
            is_authorized ev ctx ent (Some p) = Inr False)"
  using assms
  by (auto simp: is_authorized_def validate_passcode_def truthy_def py_str_def)

theorem is_authorized_passcode_witness:
  "\<not> has_role_to_skip_auth ex_env (ex_caller ''bob'' ADMIN)
   \<and> corp_type (ex_entity (Some [])) \<notin> {''SP'', ''GP''}
   \<and> ''1234'' \<noteq> []
   \<and> is_authorized ex_env (ex_caller ''bob'' ADMIN) (ex_entity (Some [])) (Some ''1234'') = Inr False"
proof -
  have h1: "\<not> has_role_to_skip_auth ex_env (ex_caller ''bob'' ADMIN)"
    by (simp add: has_role_to_skip_auth_def ex_env_def ex_caller_def Role_SKIP_AFFILIATION_AUTH_def)
  have h2: "corp_type (ex_entity (Some [])) \<notin> {''SP'', ''GP''}"
    by (simp add: ex_entity_def)
  have h3: "''1234'' \<noteq> []"
    by simp
  have "pass_code (ex_entity (Some [])) = Some []"
    by (simp add: ex_entity_def)
  with is_authorized_passcode [OF h1 h2 h3] h1 h2 h3 show ?thesis
    by blast
qed

section \<open>Properties of the membership service\<close>

lemmas ex_defs = ex_env_def ex_caller_def ex_user_def ex_member_def ex_org_def ex_model_def

lemmas const_defs = ADMIN_def COORDINATOR_def STAFF_def Status_ACTIVE_def Status_INACTIVE_def
  Status_REJECTED_def Status_PENDING_APPROVAL_def LoginSource_BCEID_def LoginSource_BCROS_def
  org_type_to_group_mapping_def

lemmas model_defs = model_attr_def model_user_def model_org_def model_membership_type_code_def
  model_membership_status_id_def setattr_model_def dict_get_def py_truthy_def py_id_def
  py_getattr_code_def py_eq_str_def

lemmas op_defs = update_membership_def update_membership_guards_def update_membership_effects_def
  add_or_remove_group_def add_or_remove_group_for_staff_def check_auth_def
  check_if_add_user_has_active_staff_org_def find_memberships_by_user_id_and_status_def
  find_by_org_ids_and_org_types_def get_owner_count_def truthy_def

subsection \<open>Assignment of the updated fields\<close>

lemma apply_updated_fields_frame:
  "(\<forall>v. (k, v) \<in> set updated_fields \<longrightarrow> v = PNone) \<Longrightarrow>
   map_of (apply_updated_fields updated_fields m) k = map_of m k"
proof (induction updated_fields arbitrary: m)
  case Nil
  then show ?case by simp
next
  case (Cons kv rest)
  obtain key v where kv: "kv = (key, v)" by (cases kv)
  from Cons.prems have rest: "\<forall>v. (k, v) \<in> set rest \<longrightarrow> v = PNone"
    by simp
  show ?case
  proof (cases "v = PNone")
    case True
    with kv Cons.IH [OF rest] show ?thesis by simp
  next
    case False
    with kv Cons.prems have "key \<noteq> k" by auto
    then have "map_of (setattr_model key v m) k = map_of m k"
      by (simp add: setattr_model_def update_conv')
    with kv False Cons.IH [OF rest, of "setattr_model key v m"] show ?thesis by simp
  qed
qed

lemma apply_updated_fields_set:
  "distinct (map fst updated_fields) \<Longrightarrow> (k, v) \<in> set updated_fields \<Longrightarrow> v \<noteq> PNone \<Longrightarrow>
   map_of (apply_updated_fields updated_fields m) k = Some v"
proof (induction updated_fields arbitrary: m)
  case Nil
  then show ?case by simp
next
  case (Cons kv rest)
  obtain key w where kv: "kv = (key, w)" by (cases kv)
  from Cons.prems kv have d: "distinct (map fst rest)" and notin: "key \<notin> fst ` set rest"
    by simp_all
  show ?case
  proof (cases "(k, v) \<in> set rest")
    case True
    from Cons.IH [OF d True Cons.prems(3)] kv show ?thesis by simp
  next
    case False
    with Cons.prems kv have eq: "key = k" "w = v" by auto
    from notin eq have "\<forall>x. (k, x) \<in> set rest \<longrightarrow> x = PNone"
      by force
    then have "map_of (apply_updated_fields rest (setattr_model k v m)) k = map_of (setattr_model k v m) k"
      by (rule apply_updated_fields_frame)
    with kv eq Cons.prems(3) show ?thesis
      by (simp add: setattr_model_def update_conv')
  qed
qed

text \<open>
  C10.  A field that \<open>updated_fields\<close> does not hold, or holds with the value \<open>None\<close>, has
  after \<open>update_membership\<close> the value it had before, whatever the outcome of the call;
  an entry of the dict with another value is assigned once the checks have passed.
\<close>

theorem update_membership_applies_only_supplied_values:
  "((\<forall>v. (k, v) \<in> set updated_fields \<longrightarrow> v = PNone) \<longrightarrow>
      map_of (snd (update_membership ev ctx updated_fields m)) k = map_of m k)
   \<and> (distinct (map fst updated_fields) \<and> (k, v) \<in> set updated_fields \<and> v \<noteq> PNone
        \<and> update_membership_guards ev ctx updated_fields m = Inr r \<longrightarrow>
      map_of (snd (update_membership ev ctx updated_fields m)) k = Some v)"
  by (auto simp: update_membership_def Let_def apply_updated_fields_frame apply_updated_fields_set
      split: sum.splits)

theorem update_membership_applies_only_supplied_values_witness:
  "map_of (snd (update_membership ex_env (ex_caller ''bob'' ADMIN)
         [(''membership_type'', PNone),
          (''membership_status'', PMembershipStatus \<lparr> status_id = Status_INACTIVE \<rparr>)]
         (ex_model ADMIN Status_ACTIVE [ex_member 1 10 ADMIN Status_ACTIVE, ex_member 3 10 ADMIN Status_ACTIVE])))
       ''membership_type''
     = Some (PMembershipType \<lparr> code = ADMIN \<rparr>)
   \<and> update_membership_guards ex_env (ex_caller ''bob'' ADMIN)
         [(''membership_type'', PNone),
          (''membership_status'', PMembershipStatus \<lparr> status_id = Status_INACTIVE \<rparr>)]
         (ex_model ADMIN Status_ACTIVE [ex_member 1 10 ADMIN Status_ACTIVE, ex_member 3 10 ADMIN Status_ACTIVE])
     = Inr True
   \<and> map_of (snd (update_membership ex_env (ex_caller ''bob'' ADMIN)
         [(''membership_type'', PNone),
          (''membership_status'', PMembershipStatus \<lparr> status_id = Status_INACTIVE \<rparr>)]
         (ex_model ADMIN Status_ACTIVE [ex_member 1 10 ADMIN Status_ACTIVE, ex_member 3 10 ADMIN Status_ACTIVE])))
       ''membership_status''
     = Some (PMembershipStatus \<lparr> status_id = Status_INACTIVE \<rparr>)"
proof -
  let ?uf = "[(''membership_type'', PNone),
              (''membership_status'', PMembershipStatus \<lparr> status_id = Status_INACTIVE \<rparr>)]"
  let ?m = "ex_model ADMIN Status_ACTIVE [ex_member 1 10 ADMIN Status_ACTIVE, ex_member 3 10 ADMIN Status_ACTIVE]"
  have h1: "\<forall>v. (''membership_type'', v) \<in> set ?uf \<longrightarrow> v = PNone"
    by simp
  have h2: "distinct (map fst ?uf)"
    by simp
  have h3: "(''membership_status'', PMembershipStatus \<lparr> status_id = Status_INACTIVE \<rparr>) \<in> set ?uf"
    by simp
  have h4: "update_membership_guards ex_env (ex_caller ''bob'' ADMIN) ?uf ?m = Inr True"
    by (simp add: ex_defs const_defs model_defs op_defs)
  have old: "map_of ?m ''membership_type'' = Some (PMembershipType \<lparr> code = ADMIN \<rparr>)"
    by (simp add: ex_model_def)
  from update_membership_applies_only_supplied_values
         [where k = "''membership_type''" and updated_fields = ?uf and ev = ex_env
            and ctx = "ex_caller ''bob'' ADMIN" and m = ?m]
       update_membership_applies_only_supplied_values
         [where k = "''membership_status''" and updated_fields = ?uf
            and v = "PMembershipStatus \<lparr> status_id = Status_INACTIVE \<rparr>"
            and ev = ex_env and ctx = "ex_caller ''bob'' ADMIN" and m = ?m and r = True]
       h1 h2 h3 h4 old
  show ?thesis
    by simp
qed

subsection \<open>The staff-uniqueness guard\<close>

text \<open>
  User 1 is ACTIVE in the staff-tier org 20 and nowhere else.  The approval of the pending
  membership in org 10, which is not staff-tier, is rejected by the guard, although the user
  would be ACTIVE in one staff-tier org only.
\<close>

theorem staff_org_guard_rejects_activation_in_other_org:
  "check_if_add_user_has_active_staff_org ex_env_staff
      (PMembershipStatus \<lparr> status_id = Status_ACTIVE \<rparr>) 1
     = Inl (BusinessException MAX_NUMBER_OF_STAFF_ORGS_LIMIT)
   \<and> fst (update_membership ex_env_staff (ex_caller ''bob'' ADMIN)
        [(''membership_status'', PMembershipStatus \<lparr> status_id = Status_ACTIVE \<rparr>)]
        (ex_model ''USER'' Status_PENDING_APPROVAL
           [ex_member 3 10 ADMIN Status_ACTIVE, ex_member 1 10 ''USER'' Status_PENDING_APPROVAL]))
     = Inl (BusinessException MAX_NUMBER_OF_STAFF_ORGS_LIMIT)
   \<and> \<not> staff_tier ex_env_staff 10
   \<and> concurrently_active_in_staff_orgs ex_env_staff 1 10 Status_ACTIVE = 1"
  by (simp add: ex_defs ex_env_staff_def const_defs model_defs op_defs staff_tier_def
      active_staff_org_ids_def concurrently_active_in_staff_orgs_def)

lemma staff_types: "set (map fst org_type_to_group_mapping) = {''MAXIMUS_STAFF'', ''CC_STAFF'', ''SBC_STAFF''}"
  by (auto simp: org_type_to_group_mapping_def)

text \<open>When \<open>_check_if_add_user_has_active_staff_org\<close> raises.\<close>

lemma staff_org_guard_iff:
  "check_if_add_user_has_active_staff_org ev updated_membership_status user_id
     = Inl (BusinessException MAX_NUMBER_OF_STAFF_ORGS_LIMIT)
   \<longleftrightarrow> py_truthy updated_membership_status
       \<and> py_id updated_membership_status = Inr Status_ACTIVE
       \<and> (\<exists>x\<in>set (e_memberships ev). \<exists>g\<in>set (e_orgs ev).
             m_user_id x = user_id \<and> status x = Status_ACTIVE \<and> o_id g = m_org_id x
             \<and> o_type_code g \<in> {''MAXIMUS_STAFF'', ''CC_STAFF'', ''SBC_STAFF''})"
proof -
  let ?staff = "find_by_org_ids_and_org_types ev
     (map m_org_id (find_memberships_by_user_id_and_status ev user_id Status_ACTIVE))
     (map fst org_type_to_group_mapping)"
  have "length ?staff > 0 \<longleftrightarrow> (\<exists>g. g \<in> set ?staff)"
    by (cases ?staff) auto
  also have "\<dots> \<longleftrightarrow> (\<exists>x\<in>set (e_memberships ev). \<exists>g\<in>set (e_orgs ev).
             m_user_id x = user_id \<and> status x = Status_ACTIVE \<and> o_id g = m_org_id x
             \<and> o_type_code g \<in> {''MAXIMUS_STAFF'', ''CC_STAFF'', ''SBC_STAFF''})"
    unfolding find_by_org_ids_and_org_types_def find_memberships_by_user_id_and_status_def staff_types
    by auto
  finally have l: "length ?staff > 0 \<longleftrightarrow> (\<exists>x\<in>set (e_memberships ev). \<exists>g\<in>set (e_orgs ev).
             m_user_id x = user_id \<and> status x = Status_ACTIVE \<and> o_id g = m_org_id x
             \<and> o_type_code g \<in> {''MAXIMUS_STAFF'', ''CC_STAFF'', ''SBC_STAFF''})" .
  have e: "py_id updated_membership_status \<noteq> Inl (BusinessException MAX_NUMBER_OF_STAFF_ORGS_LIMIT)"
    by (simp add: py_id_def split: pyval.splits)
  show ?thesis
    unfolding check_if_add_user_has_active_staff_org_def Let_def l [symmetric]
    using e by (auto split: sum.splits)
qed

text \<open>The reads of the model and of an \<open>id\<close> fail with \<open>AttributeError\<close> only.\<close>

lemma model_read_errors:
  "model_attr m k = Inl e \<Longrightarrow> e = AttributeError"
  "model_user m = Inl e \<Longrightarrow> e = AttributeError"
  "model_org m = Inl e \<Longrightarrow> e = AttributeError"
  "model_membership_type_code m = Inl e \<Longrightarrow> e = AttributeError"
  "py_id v = Inl e \<Longrightarrow> e = AttributeError"
  "model_membership_status_id m = Inl e \<Longrightarrow> e = AttributeError"
  by (auto simp: model_attr_def model_user_def model_org_def model_membership_type_code_def
      py_id_def model_membership_status_id_def split: option.splits pyval.splits)

lemma add_or_remove_group_for_staff_errors:
  "add_or_remove_group_for_staff ev m = Inl e \<Longrightarrow> e = AttributeError"
  unfolding add_or_remove_group_for_staff_def Let_def
  by (auto split: sum.splits option.splits if_splits dest: model_read_errors)

lemma add_or_remove_group_errors:
  "add_or_remove_group ev m = Inl e \<Longrightarrow> e = AttributeError"
  unfolding add_or_remove_group_def Let_def
  by (auto split: sum.splits dest: model_read_errors add_or_remove_group_for_staff_errors)

text \<open>What follows the assignment of the fields raises no business error.\<close>

lemma update_membership_effects_errors:
  "update_membership_effects ev ctx updated_fields agr m = Inl e \<Longrightarrow> e = AttributeError"
  unfolding update_membership_effects_def Let_def
  by (auto split: sum.splits if_splits dest: model_read_errors add_or_remove_group_errors)

lemma limit_other_errors:
  "BusinessException MAX_NUMBER_OF_STAFF_ORGS_LIMIT \<noteq> BusinessException BCEID_USERS_CANT_BE_OWNERS"
  "BusinessException MAX_NUMBER_OF_STAFF_ORGS_LIMIT \<noteq> BusinessException CHANGE_ROLE_FAILED_ONLY_OWNER"
  by (simp_all add: MAX_NUMBER_OF_STAFF_ORGS_LIMIT_def BCEID_USERS_CANT_BE_OWNERS_def
      CHANGE_ROLE_FAILED_ONLY_OWNER_def)

text \<open>Among the checks of \<open>update_membership\<close> only the staff-org check raises the limit error.\<close>

lemma guards_staff_limit:
  assumes o: "model_attr m ''org_id'' = Inr org_id"
    and a: "check_auth ctx org_id [COORDINATOR, ADMIN, STAFF]"
    and u: "model_user m = Inr usr"
  shows "update_membership_guards ev ctx updated_fields m
           = Inl (BusinessException MAX_NUMBER_OF_STAFF_ORGS_LIMIT)
     \<longleftrightarrow> check_if_add_user_has_active_staff_org ev
           (dict_get updated_fields ''membership_status'') (u_id usr)
           = Inl (BusinessException MAX_NUMBER_OF_STAFF_ORGS_LIMIT)"
  unfolding update_membership_guards_def Let_def
  using o a u limit_other_errors
  by (auto split: sum.splits if_splits dest: model_read_errors)

text \<open>
  C3 (amended).  A request of an authorized caller to \<open>update_membership\<close> is rejected with
  MAX_NUMBER_OF_STAFF_ORGS_LIMIT exactly when the requested status is ACTIVE and the user of
  the membership already holds an ACTIVE membership in at least one staff-tier org; the
  org of the membership being updated plays no part, and the membership is unchanged.
\<close>

theorem update_membership_staff_org_limit:
  assumes "model_attr m ''org_id'' = Inr org_id"
    and "check_auth ctx org_id [COORDINATOR, ADMIN, STAFF]"
    and "model_user m = Inr usr"
  shows "(fst (update_membership ev ctx updated_fields m)
            = Inl (BusinessException MAX_NUMBER_OF_STAFF_ORGS_LIMIT)
          \<longleftrightarrow> py_truthy (dict_get updated_fields ''membership_status'')
              \<and> py_id (dict_get updated_fields ''membership_status'') = Inr Status_ACTIVE
              \<and> (\<exists>x\<in>set (e_memberships ev). \<exists>g\<in>set (e_orgs ev).
                    m_user_id x = u_id usr \<and> status x = Status_ACTIVE \<and> o_id g = m_org_id x
                    \<and> o_type_code g \<in> {''MAXIMUS_STAFF'', ''CC_STAFF'', ''SBC_STAFF''}))
       \<and> (fst (update_membership ev ctx updated_fields m)
            = Inl (BusinessException MAX_NUMBER_OF_STAFF_ORGS_LIMIT)
          \<longrightarrow> snd (update_membership ev ctx updated_fields m) = m)"
proof -
  let ?limit = "Inl (BusinessException MAX_NUMBER_OF_STAFF_ORGS_LIMIT) :: error + effect list"
  have g: "update_membership_guards ev ctx updated_fields m
             = Inl (BusinessException MAX_NUMBER_OF_STAFF_ORGS_LIMIT)
     \<longleftrightarrow> py_truthy (dict_get updated_fields ''membership_status'')
              \<and> py_id (dict_get updated_fields ''membership_status'') = Inr Status_ACTIVE
              \<and> (\<exists>x\<in>set (e_memberships ev). \<exists>g\<in>set (e_orgs ev).
                    m_user_id x = u_id usr \<and> status x = Status_ACTIVE \<and> o_id g = m_org_id x
                    \<and> o_type_code g \<in> {''MAXIMUS_STAFF'', ''CC_STAFF'', ''SBC_STAFF''})"
    unfolding guards_staff_limit [OF assms] staff_org_guard_iff ..
  have f: "fst (update_membership ev ctx updated_fields m) = ?limit
     \<longleftrightarrow> update_membership_guards ev ctx updated_fields m
             = Inl (BusinessException MAX_NUMBER_OF_STAFF_ORGS_LIMIT)"
    unfolding update_membership_def Let_def
    by (auto split: sum.splits dest: update_membership_effects_errors)
  have s: "update_membership_guards ev ctx updated_fields m
             = Inl (BusinessException MAX_NUMBER_OF_STAFF_ORGS_LIMIT)
     \<Longrightarrow> snd (update_membership ev ctx updated_fields m) = m"
    by (simp add: update_membership_def)
  from f g s show ?thesis
    by blast
qed

theorem update_membership_staff_org_limit_witness:
  "model_attr (ex_model ''USER'' Status_PENDING_APPROVAL
       [ex_member 3 10 ADMIN Status_ACTIVE, ex_member 1 10 ''USER'' Status_PENDING_APPROVAL])
     ''org_id'' = Inr (PInt 10)
   \<and> check_auth (ex_caller ''bob'' ADMIN) (PInt 10) [COORDINATOR, ADMIN, STAFF]
   \<and> model_user (ex_model ''USER'' Status_PENDING_APPROVAL
       [ex_member 3 10 ADMIN Status_ACTIVE, ex_member 1 10 ''USER'' Status_PENDING_APPROVAL])
     = Inr ex_user
   \<and> fst (update_membership ex_env_staff (ex_caller ''bob'' ADMIN)
        [(''membership_status'', PMembershipStatus \<lparr> status_id = Status_ACTIVE \<rparr>)]
        (ex_model ''USER'' Status_PENDING_APPROVAL
           [ex_member 3 10 ADMIN Status_ACTIVE, ex_member 1 10 ''USER'' Status_PENDING_APPROVAL]))
     = Inl (BusinessException MAX_NUMBER_OF_STAFF_ORGS_LIMIT)
   \<and> snd (update_membership ex_env_staff (ex_caller ''bob'' ADMIN)
        [(''membership_status'', PMembershipStatus \<lparr> status_id = Status_ACTIVE \<rparr>)]
        (ex_model ''USER'' Status_PENDING_APPROVAL
           [ex_member 3 10 ADMIN Status_ACTIVE, ex_member 1 10 ''USER'' Status_PENDING_APPROVAL]))
     = ex_model ''USER'' Status_PENDING_APPROVAL
           [ex_member 3 10 ADMIN Status_ACTIVE, ex_member 1 10 ''USER'' Status_PENDING_APPROVAL]
   \<and> fst (update_membership ex_env_staff (ex_caller ''bob'' ADMIN)
        [(''membership_status'', PMembershipStatus \<lparr> status_id = Status_REJECTED \<rparr>)]
        (ex_model ''USER'' Status_PENDING_APPROVAL
           [ex_member 3 10 ADMIN Status_ACTIVE, ex_member 1 10 ''USER'' Status_PENDING_APPROVAL]))
     \<noteq> Inl (BusinessException MAX_NUMBER_OF_STAFF_ORGS_LIMIT)"
proof -
  let ?m = "ex_model ''USER'' Status_PENDING_APPROVAL
       [ex_member 3 10 ADMIN Status_ACTIVE, ex_member 1 10 ''USER'' Status_PENDING_APPROVAL]"
  let ?act = "[(''membership_status'', PMembershipStatus \<lparr> status_id = Status_ACTIVE \<rparr>)]"
  let ?rej = "[(''membership_status'', PMembershipStatus \<lparr> status_id = Status_REJECTED \<rparr>)]"
  have h1: "model_attr ?m ''org_id'' = Inr (PInt 10)"
    by (simp add: ex_model_def model_defs)
  have h2: "check_auth (ex_caller ''bob'' ADMIN) (PInt 10) [COORDINATOR, ADMIN, STAFF]"
    by (simp add: check_auth_def ex_caller_def)
  have h3: "model_user ?m = Inr ex_user"
    by (simp add: ex_model_def model_defs)
  have a: "py_truthy (dict_get ?act ''membership_status'')"
    "py_id (dict_get ?act ''membership_status'') = Inr Status_ACTIVE"
    "py_id (dict_get ?rej ''membership_status'') \<noteq> Inr Status_ACTIVE"
    by (simp_all add: model_defs const_defs)
  have b: "\<exists>x\<in>set (e_memberships ex_env_staff). \<exists>g\<in>set (e_orgs ex_env_staff).
          m_user_id x = u_id ex_user \<and> status x = Status_ACTIVE \<and> o_id g = m_org_id x
          \<and> o_type_code g \<in> {''MAXIMUS_STAFF'', ''CC_STAFF'', ''SBC_STAFF''}"
    by (simp add: ex_defs ex_env_staff_def const_defs)
  from update_membership_staff_org_limit [OF h1 h2 h3, where ev = ex_env_staff and updated_fields = ?act]
       update_membership_staff_org_limit [OF h1 h2 h3, where ev = ex_env_staff and updated_fields = ?rej]
       h1 h2 h3 a b
  show ?thesis
    by blast
qed

subsection \<open>The owner-count guard\<close>

lemma guards_sole_owner:
  assumes t: "model_membership_type_code m = Inr ADMIN"
    and g: "model_org m = Inr g" and c: "get_owner_count g = 1"
    and req: "requests_deactivation updated_fields \<or> requests_demotion updated_fields"
  shows "\<exists>e. update_membership_guards ev ctx updated_fields m = Inl e"
proof -
  have ac: "ADMIN \<noteq> COORDINATOR"
    by (simp add: ADMIN_def COORDINATOR_def)
  from req show ?thesis
  proof
    assume "requests_deactivation updated_fields"
    then obtain s where s: "dict_get updated_fields ''membership_status'' = PMembershipStatus s"
      and i: "status_id s = Status_INACTIVE"
      by (auto simp: requests_deactivation_def split: pyval.splits)
    show ?thesis
      unfolding update_membership_guards_def Let_def
      using t g c s i ac
      by (simp add: py_truthy_def py_id_def split: sum.splits)
  next
    assume "requests_demotion updated_fields"
    then have ne: "\<not> py_eq_str (dict_get updated_fields ''membership_type'') ADMIN"
      by (auto simp: requests_demotion_def py_eq_str_def split: pyval.splits)
    show ?thesis
      unfolding update_membership_guards_def Let_def
      using t g c ne ac
      by (simp split: sum.splits)
  qed
qed

lemma guards_sole_owner_error:
  assumes t: "model_membership_type_code m = Inr ADMIN"
    and g: "model_org m = Inr g" and c: "get_owner_count g = 1"
    and req: "requests_deactivation updated_fields \<or> requests_demotion updated_fields"
    and o: "model_attr m ''org_id'' = Inr org_id"
    and a: "check_auth ctx org_id [COORDINATOR, ADMIN, STAFF]"
    and u: "model_user m = Inr usr"
    and st: "check_if_add_user_has_active_staff_org ev
               (dict_get updated_fields ''membership_status'') (u_id usr) = Inr ()"
    and b: "\<not> (u_login_source usr = LoginSource_BCEID
              \<and> py_getattr_code (dict_get updated_fields ''membership_type'') = Some ADMIN)"
  shows "update_membership_guards ev ctx updated_fields m
           = Inl (BusinessException CHANGE_ROLE_FAILED_ONLY_OWNER)"
proof -
  have ac: "ADMIN \<noteq> COORDINATOR"
    by (simp add: ADMIN_def COORDINATOR_def)
  from req show ?thesis
  proof
    assume "requests_deactivation updated_fields"
    then obtain s where s: "dict_get updated_fields ''membership_status'' = PMembershipStatus s"
      and i: "status_id s = Status_INACTIVE"
      by (auto simp: requests_deactivation_def split: pyval.splits)
    show ?thesis
      unfolding update_membership_guards_def Let_def
      using t g c s i ac o a u st b
      by (auto simp: py_truthy_def py_id_def)
  next
    assume "requests_demotion updated_fields"
    then have ne: "\<not> py_eq_str (dict_get updated_fields ''membership_type'') ADMIN"
      by (auto simp: requests_demotion_def py_eq_str_def split: pyval.splits)
    from st have "py_truthy (dict_get updated_fields ''membership_status'') \<Longrightarrow>
        \<exists>i. py_id (dict_get updated_fields ''membership_status'') = Inr i"
      by (cases "py_id (dict_get updated_fields ''membership_status'')")
        (simp_all add: check_if_add_user_has_active_staff_org_def Let_def)
    then show ?thesis
      unfolding update_membership_guards_def Let_def
      using t g c ne ac o a u st b
      by (auto split: sum.splits)
  qed
qed

lemma deactivate_one_of_two:
  assumes oid: "map_of m ''org_id'' = Some org_id"
    and uid: "map_of m ''user_id'' = Some user_id"
    and u: "map_of m ''user'' = Some (PUser usr)"
    and g: "map_of m ''org'' = Some (POrg g)"
    and t: "map_of m ''membership_type'' = Some (PMembershipType mt)" and ct: "code mt = ADMIN"
    and c: "get_owner_count g = 2"
    and a: "check_auth ctx org_id [COORDINATOR, ADMIN, STAFF]"
  shows "\<exists>effects. update_membership ev ctx
           [(''membership_status'', PMembershipStatus \<lparr> status_id = Status_INACTIVE \<rparr>)] m
         = (Inr effects,
            setattr_model ''membership_status''
              (PMembershipStatus \<lparr> status_id = Status_INACTIVE \<rparr>) m)"
proof -
  let ?uf = "[(''membership_status'', PMembershipStatus \<lparr> status_id = Status_INACTIVE \<rparr>)]"
  let ?m' = "setattr_model ''membership_status'' (PMembershipStatus \<lparr> status_id = Status_INACTIVE \<rparr>) m"
  have ia: "Status_INACTIVE \<noteq> Status_ACTIVE"
    by (simp add: Status_INACTIVE_def Status_ACTIVE_def)
  have gd: "update_membership_guards ev ctx ?uf m = Inr True"
    unfolding update_membership_guards_def Let_def
    using oid uid u g t ct c a ia
    by (simp add: model_attr_def model_user_def model_org_def model_membership_type_code_def
        dict_get_def py_truthy_def py_id_def py_getattr_code_def py_eq_str_def
        check_if_add_user_has_active_staff_org_def ADMIN_def COORDINATOR_def)
  have rd: "model_attr ?m' ''org_id'' = Inr org_id" "model_attr ?m' ''user_id'' = Inr user_id"
    "model_user ?m' = Inr usr" "model_org ?m' = Inr g"
    "model_membership_type_code ?m' = Inr ADMIN"
    "model_membership_status_id ?m' = Inr Status_INACTIVE"
    using oid uid u g t ct
    by (simp_all add: setattr_model_def update_conv' model_attr_def model_user_def model_org_def
        model_membership_type_code_def model_membership_status_id_def py_id_def)
  have "\<exists>gs. add_or_remove_group_for_staff ev ?m' = Inr gs"
    unfolding add_or_remove_group_for_staff_def Let_def rd
    by (simp add: ia split: option.splits)
  then obtain gs where gs: "add_or_remove_group_for_staff ev ?m' = Inr gs" ..
  have grp: "\<exists>gs. add_or_remove_group ev ?m' = Inr gs"
    unfolding add_or_remove_group_def Let_def rd gs
    by simp
  then obtain gr where gr: "add_or_remove_group ev ?m' = Inr gr" ..
  have dg: "dict_get ?uf ''membership_status'' = PMembershipStatus \<lparr> status_id = Status_INACTIVE \<rparr>"
    "dict_get ?uf ''membership_type'' = PNone"
    by (simp_all add: dict_get_def)
  have "\<exists>effects. update_membership_effects ev ctx ?uf True ?m' = Inr effects"
    unfolding update_membership_effects_def Let_def rd gr dg
    by (simp add: py_truthy_def py_id_def ia)
  then show ?thesis
    unfolding update_membership_def using gd by (auto simp: Let_def)
qed

text \<open>
  Where every membership of the org that holds the ADMIN role is ACTIVE, the owner count is
  the number of ACTIVE owners: the request that deactivates or demotes the only one is
  rejected and the membership is unchanged, and one of two is deactivated.
\<close>

lemma get_owner_count_all_active:
  "\<forall>x\<in>set (o_members g). membership_type_code x = ADMIN \<longrightarrow> status x = Status_ACTIVE \<Longrightarrow>
   get_owner_count g = active_owner_count g"
  unfolding get_owner_count_def active_owner_count_def
  by (rule arg_cong [where f = length], rule filter_cong) auto

lemma update_membership_sole_owner_all_active:
  assumes "\<forall>x\<in>set (o_members g). membership_type_code x = ADMIN \<longrightarrow> status x = Status_ACTIVE"
    and "model_membership_type_code m = Inr ADMIN"
    and "model_org m = Inr g"
    and "active_owner_count g = 1"
    and "requests_deactivation updated_fields \<or> requests_demotion updated_fields"
  shows "\<exists>e. update_membership ev ctx updated_fields m = (Inl e, m)"
proof -
  from assms(1,4) have "get_owner_count g = 1"
    by (simp add: get_owner_count_all_active)
  with assms(2,3,5) obtain e where "update_membership_guards ev ctx updated_fields m = Inl e"
    using guards_sole_owner [where m = m and g = g and updated_fields = updated_fields
        and ev = ev and ctx = ctx] by blast
  then show ?thesis
    by (simp add: update_membership_def)
qed

lemma update_membership_sole_owner_error:
  assumes "model_membership_type_code m = Inr ADMIN"
    and "model_org m = Inr g"
    and "get_owner_count g = 1"
    and "requests_deactivation updated_fields \<or> requests_demotion updated_fields"
    and "model_attr m ''org_id'' = Inr org_id"
    and "check_auth ctx org_id [COORDINATOR, ADMIN, STAFF]"
    and "model_user m = Inr usr"
    and "check_if_add_user_has_active_staff_org ev
           (dict_get updated_fields ''membership_status'') (u_id usr) = Inr ()"
    and "\<not> (u_login_source usr = LoginSource_BCEID
            \<and> py_getattr_code (dict_get updated_fields ''membership_type'') = Some ADMIN)"
  shows "update_membership ev ctx updated_fields m
           = (Inl (BusinessException CHANGE_ROLE_FAILED_ONLY_OWNER), m)"
  using guards_sole_owner_error [OF assms] by (simp add: update_membership_def)

lemma update_membership_one_of_two_all_active:
  assumes "\<forall>x\<in>set (o_members g). membership_type_code x = ADMIN \<longrightarrow> status x = Status_ACTIVE"
    and "active_owner_count g = 2"
    and "map_of m ''org_id'' = Some org_id"
    and "map_of m ''user_id'' = Some user_id"
    and "map_of m ''user'' = Some (PUser usr)"
    and "map_of m ''org'' = Some (POrg g)"
    and "map_of m ''membership_type'' = Some (PMembershipType mt)" and "code mt = ADMIN"
    and "check_auth ctx org_id [COORDINATOR, ADMIN, STAFF]"
  shows "\<exists>effects. update_membership ev ctx
           [(''membership_status'', PMembershipStatus \<lparr> status_id = Status_INACTIVE \<rparr>)] m
         = (Inr effects,
            setattr_model ''membership_status''
              (PMembershipStatus \<lparr> status_id = Status_INACTIVE \<rparr>) m)"
proof -
  from assms(1,2) have "get_owner_count g = 2"
    by (simp add: get_owner_count_all_active)
  with assms(3-9) show ?thesis
    using deactivate_one_of_two [where m = m and org_id = org_id and user_id = user_id
        and usr = usr and g = g and mt = mt and ctx = ctx and ev = ev] by blast
qed


text \<open>
  The same with a second membership that was deactivated earlier, and for the demotion of
  the only active owner.
\<close>

lemma update_membership_accepts_deactivation_beside_inactive_owner:
  "active_owner_count (ex_org [ex_member 1 10 ADMIN Status_ACTIVE,
                               ex_member 3 10 ADMIN Status_INACTIVE]) = 1
   \<and> fst (update_membership ex_env (ex_caller ''bob'' ADMIN)
        [(''membership_status'', PMembershipStatus \<lparr> status_id = Status_INACTIVE \<rparr>)]
        (ex_model ADMIN Status_ACTIVE [ex_member 1 10 ADMIN Status_ACTIVE,
                         ex_member 3 10 ADMIN Status_INACTIVE]))
     = Inr [ModelSave,
            PublishActivity (PInt 10) ''REMOVE_TEAM_MEMBER'' (PStr ADMIN),
            PublishTeamMemberEvent (PInt 10) (PInt 1),
            RemoveFromAccountHoldersGroup ''guid-1'',
            UpdateUsersProductsKeycloakGroups 1]"
  by (simp add: active_owner_count_def ex_defs const_defs model_defs op_defs)

lemma update_membership_accepts_demotion_beside_pending_owner:
  "active_owner_count (ex_org [ex_member 1 10 ADMIN Status_ACTIVE,
                               ex_member 3 10 ADMIN Status_PENDING_APPROVAL]) = 1
   \<and> requests_demotion [(''membership_type'', PMembershipType \<lparr> code = COORDINATOR \<rparr>)]
   \<and> update_membership ex_env (ex_caller ''bob'' ADMIN)
        [(''membership_type'', PMembershipType \<lparr> code = COORDINATOR \<rparr>)]
        (ex_model ADMIN Status_ACTIVE [ex_member 1 10 ADMIN Status_ACTIVE,
                         ex_member 3 10 ADMIN Status_PENDING_APPROVAL])
     = (Inr [ModelSave, JoinAccountHoldersGroup ''guid-1'', UpdateUsersProductsKeycloakGroups 1],
        setattr_model ''membership_type'' (PMembershipType \<lparr> code = COORDINATOR \<rparr>)
          (ex_model ADMIN Status_ACTIVE [ex_member 1 10 ADMIN Status_ACTIVE,
                           ex_member 3 10 ADMIN Status_PENDING_APPROVAL]))"
  by (simp add: active_owner_count_def requests_demotion_def ex_defs const_defs model_defs op_defs)

subsection \<open>Standalone deactivation\<close>

text \<open>
  C2.  \<open>deactivate_membership\<close> carries out the deactivation of the only owner of an org:
  the owner count is not consulted.
\<close>

theorem deactivate_membership_sole_owner:
  "active_owner_count (ex_org [ex_member 1 10 ADMIN Status_ACTIVE]) = 1
   \<and> get_owner_count (ex_org [ex_member 1 10 ADMIN Status_ACTIVE]) = 1
   \<and> deactivate_membership ex_env (ex_caller ''alice'' ADMIN)
        (ex_model ADMIN Status_ACTIVE [ex_member 1 10 ADMIN Status_ACTIVE])
     = (Inr [ModelSave, RemoveFromAccountHoldersGroup ''guid-1'',
             UpdateUsersProductsKeycloakGroups 1,
             PublishActivity (PInt 10) ''REMOVE_TEAM_MEMBER'' PNone,
             PublishTeamMemberEvent (PInt 10) (PInt 1)],
        setattr_model ''membership_status'' (PMembershipStatus \<lparr> status_id = Status_INACTIVE \<rparr>)
          (ex_model ADMIN Status_ACTIVE [ex_member 1 10 ADMIN Status_ACTIVE]))"
  by (simp add: active_owner_count_def deactivate_membership_def ex_defs const_defs model_defs op_defs)

subsection \<open>Promotion to owner\<close>

text \<open>
  The check of line 237 compares the requested membership type with the role name.  When
  the request gives the role name itself, the promotion of a member with the role
  COORDINATOR by a caller who is neither an owner nor staff is rejected.
\<close>

lemma coordinator_promotion_guard:
  assumes t: "model_membership_type_code m = Inr COORDINATOR"
    and r: "dict_get updated_fields ''membership_type'' = PStr ADMIN"
    and o: "model_attr m ''org_id'' = Inr org_id"
    and na: "\<not> check_auth ctx org_id [ADMIN, STAFF]"
  shows "\<exists>e. update_membership_guards ev ctx updated_fields m = Inl e"
  unfolding update_membership_guards_def Let_def
  using t r o na
  by (simp add: py_eq_str_def split: sum.splits)

lemma update_membership_coordinator_role_name:
  assumes "model_membership_type_code m = Inr COORDINATOR"
    and "dict_get updated_fields ''membership_type'' = PStr ADMIN"
    and "model_attr m ''org_id'' = Inr org_id"
    and "\<not> check_auth ctx org_id [ADMIN, STAFF]"
  shows "\<exists>e. update_membership ev ctx updated_fields m = (Inl e, m)"
proof -
  from assms obtain e where "update_membership_guards ev ctx updated_fields m = Inl e"
    using coordinator_promotion_guard [where m = m and updated_fields = updated_fields
        and org_id = org_id and ctx = ctx and ev = ev] by blast
  then show ?thesis
    by (simp add: update_membership_def)
qed

text \<open>
  When the request gives a membership type object, whose \<open>code\<close> line 233 reads and which
  line 262 assigns, the comparison never holds: once the caller has passed the first check
  the checks refuse nobody.
\<close>

lemma coordinator_guard_skips_type_objects:
  assumes "dict_get updated_fields ''membership_type'' = PMembershipType t"
    and "model_attr m ''org_id'' = Inr org_id"
    and "check_auth ctx org_id [COORDINATOR, ADMIN, STAFF]"
  shows "update_membership_guards ev ctx updated_fields m \<noteq> Inl Forbidden"
  unfolding update_membership_guards_def Let_def
  using assms
  by (auto simp: py_eq_str_def check_if_add_user_has_active_staff_org_def
      split: sum.splits if_splits dest: model_read_errors)

text \<open>
  A caller who holds the COORDINATOR role, and is not staff, promotes a member with the role
  USER to owner, with the requested type given as a type object or as the role name.
\<close>

lemma update_membership_coordinator_promotes_user:
  "uc_org_membership (ex_caller ''carol'' COORDINATOR) 10 = Some COORDINATOR
   \<and> \<not> uc_is_staff (ex_caller ''carol'' COORDINATOR)
   \<and> update_membership ex_env (ex_caller ''carol'' COORDINATOR)
        [(''membership_type'', PMembershipType \<lparr> code = ADMIN \<rparr>)]
        (ex_model ''USER'' Status_ACTIVE [ex_member 1 10 ''USER'' Status_ACTIVE, ex_member 3 10 ADMIN Status_ACTIVE])
     = (Inr [ModelSave, JoinAccountHoldersGroup ''guid-1'', UpdateUsersProductsKeycloakGroups 1],
        setattr_model ''membership_type'' (PMembershipType \<lparr> code = ADMIN \<rparr>)
          (ex_model ''USER'' Status_ACTIVE [ex_member 1 10 ''USER'' Status_ACTIVE, ex_member 3 10 ADMIN Status_ACTIVE]))
   \<and> update_membership ex_env (ex_caller ''carol'' COORDINATOR)
        [(''membership_type'', PStr ADMIN)]
        (ex_model ''USER'' Status_ACTIVE [ex_member 1 10 ''USER'' Status_ACTIVE, ex_member 3 10 ADMIN Status_ACTIVE])
     = (Inr [ModelSave, JoinAccountHoldersGroup ''guid-1'', UpdateUsersProductsKeycloakGroups 1],
        setattr_model ''membership_type'' (PStr ADMIN)
          (ex_model ''USER'' Status_ACTIVE [ex_member 1 10 ''USER'' Status_ACTIVE, ex_member 3 10 ADMIN Status_ACTIVE]))"
  by (simp add: ex_defs const_defs model_defs op_defs)

text \<open>
  C9.  The caller carol holds the COORDINATOR role on the org and is neither an owner nor
  staff.  Her request to assign the membership type ADMIN, given as a type object, to the
  membership of alice, who holds the COORDINATOR role, is not rejected: the membership is
  saved with the ADMIN role.
\<close>

theorem update_membership_coordinator_promotes_coordinator:
  "uc_org_membership (ex_caller ''carol'' COORDINATOR) 10 = Some COORDINATOR
   \<and> \<not> uc_is_staff (ex_caller ''carol'' COORDINATOR)
   \<and> \<not> check_auth (ex_caller ''carol'' COORDINATOR) (PInt 10) [ADMIN, STAFF]
   \<and> update_membership ex_env (ex_caller ''carol'' COORDINATOR)
        [(''membership_type'', PMembershipType \<lparr> code = ADMIN \<rparr>)]
        (ex_model COORDINATOR Status_ACTIVE
           [ex_member 1 10 COORDINATOR Status_ACTIVE, ex_member 3 10 ADMIN Status_ACTIVE])
     = (Inr [ModelSave, JoinAccountHoldersGroup ''guid-1'', UpdateUsersProductsKeycloakGroups 1],
        setattr_model ''membership_type'' (PMembershipType \<lparr> code = ADMIN \<rparr>)
          (ex_model COORDINATOR Status_ACTIVE
             [ex_member 1 10 COORDINATOR Status_ACTIVE, ex_member 3 10 ADMIN Status_ACTIVE]))
   \<and> model_membership_type_code
        (snd (update_membership ex_env (ex_caller ''carol'' COORDINATOR)
           [(''membership_type'', PMembershipType \<lparr> code = ADMIN \<rparr>)]
           (ex_model COORDINATOR Status_ACTIVE
              [ex_member 1 10 COORDINATOR Status_ACTIVE, ex_member 3 10 ADMIN Status_ACTIVE])))
     = Inr ADMIN"
  by (simp add: ex_defs const_defs model_defs op_defs)

end
